theory Spec2Isabelle
  imports Main
begin

section \<open>The model asset lifecycle manager of transcribe-audio\<close>

text \<open>
  The repository holds two versions of the model downloader (\<^verbatim>\<open>src/fileManage.ts\<close> in the
  README). The later one, \<^verbatim>\<open>part_001\<close>, merges the stored states in \<^verbatim>\<open>loadStates\<close> and
  repairs them in \<^verbatim>\<open>normalizeStatesOnStartup\<close>; the earlier one, the second half of
  \<^verbatim>\<open>part_000\<close>, resets a \<^verbatim>\<open>downloading\<close> record inside \<^verbatim>\<open>loadStates\<close>. Definitions taken from
  \<^verbatim>\<open>part_001\<close> keep the source's names; those taken from \<^verbatim>\<open>part_000\<close> carry the suffix
  \<open>_p0\<close>.
\<close>

subsection \<open>JavaScript values read from and written to localStorage\<close>

text \<open>
  \<^verbatim>\<open>JSON.parse\<close> returns \<^verbatim>\<open>any\<close>: the TypeScript type \<^verbatim>\<open>Record<ModelKey, ModelState>\<close> is not
  checked at run time. The values are therefore JSON trees. An object is the list of its
  members in insertion order; the last binding of a name is the one that counts, as in
  \<^verbatim>\<open>JSON.parse\<close>. Numbers are integers: the manager writes only \<^verbatim>\<open>0\<close>, \<^verbatim>\<open>100\<close> and results of
  \<^verbatim>\<open>Math.round\<close>.
\<close>

datatype json =
    JNull
  | JBool bool
  | JNum int
  | JStr string
  | JArr "json list"
  | JObj "(string \<times> json) list"

type_synonym props = "(string \<times> json) list"

text \<open>The \<^verbatim>\<open>name\<close> of a thrown error; \<^verbatim>\<open>new Error('Network error')\<close> has the name \<^verbatim>\<open>Error\<close>.\<close>

datatype js_error = TypeError | SyntaxError | AbortError | PlainError

text \<open>Reading \<^verbatim>\<open>o[k]\<close> on the members of an object: \<open>None\<close> is \<^verbatim>\<open>undefined\<close>.\<close>

fun get_prop :: "props \<Rightarrow> string \<Rightarrow> json option" where
  "get_prop [] k = None"
| "get_prop ((k', v) # ps) k =
     (case get_prop ps k of
        Some w \<Rightarrow> Some w
      | None \<Rightarrow> if k' = k then Some v else None)"

text \<open>
  Writing \<^verbatim>\<open>o[k] = v\<close>: an existing member keeps its place, a new one goes to the end.
\<close>

definition set_prop :: "string \<Rightarrow> json \<Rightarrow> props \<Rightarrow> props" where
  "set_prop k v ps =
     (case get_prop ps k of
        None \<Rightarrow> ps @ [(k, v)]
      | Some _ \<Rightarrow> map (\<lambda>(k', v'). if k' = k then (k', v) else (k', v')) ps)"

text \<open>The decimal name of an array index, as \<^verbatim>\<open>Object.keys\<close> and the spread give it.\<close>

definition digit_char :: "nat \<Rightarrow> char" where
  "digit_char d = ''0123456789'' ! d"

fun index_key :: "nat \<Rightarrow> string" where
  "index_key n =
     (if n < 10 then [digit_char n] else index_key (n div 10) @ [digit_char (n mod 10)])"

declare index_key.simps [simp del]

text \<open>
  The own enumerable members of a value: what \<^verbatim>\<open>Object.keys(x)\<close> lists and \<^verbatim>\<open>{...x}\<close>
  copies. An array and a string have their indices, a number and a boolean nothing.
  The code reads only the names \<^verbatim>\<open>state\<close>, \<^verbatim>\<open>progress\<close>, the catalog names and the names
  \<^verbatim>\<open>Object.keys\<close> returned, never \<^verbatim>\<open>length\<close> or an inherited member.
\<close>

fun own_props :: "json \<Rightarrow> props" where
  "own_props (JObj ps) = ps"
| "own_props (JArr xs) = zip (map index_key [0..<length xs]) xs"
| "own_props (JStr s) = zip (map index_key [0..<length s]) (map (\<lambda>c. JStr [c]) s)"
| "own_props _ = []"

text \<open>\<^verbatim>\<open>x[k]\<close>: a \<^verbatim>\<open>TypeError\<close> on \<^verbatim>\<open>null\<close>, \<^verbatim>\<open>undefined\<close> for a member that is not there.\<close>

fun get_member :: "json \<Rightarrow> string \<Rightarrow> js_error + json option" where
  "get_member JNull k = Inl TypeError"
| "get_member x k = Inr (get_prop (own_props x) k)"

text \<open>
  \<^verbatim>\<open>x[k] = v\<close> in an ES module (strict mode): a \<^verbatim>\<open>TypeError\<close> on \<^verbatim>\<open>null\<close> and on a
  primitive. An array takes a named member, but \<^verbatim>\<open>JSON.stringify\<close> drops it; the model keeps
  the serialised view, so the theorems below about such an assignment are stated for
  records that are objects.
\<close>

fun set_member :: "json \<Rightarrow> string \<Rightarrow> json \<Rightarrow> js_error + json" where
  "set_member (JObj ps) k v = Inr (JObj (set_prop k v ps))"
| "set_member (JArr xs) k v = Inr (JArr xs)"
| "set_member x k v = Inl TypeError"

text \<open>\<^verbatim>\<open>!x\<close> is true on \<^verbatim>\<open>null\<close>, \<^verbatim>\<open>false\<close>, \<^verbatim>\<open>0\<close> and the empty string.\<close>

fun truthy :: "json \<Rightarrow> bool" where
  "truthy JNull = False"
| "truthy (JBool b) = b"
| "truthy (JNum n) = (n \<noteq> 0)"
| "truthy (JStr s) = (s \<noteq> [])"
| "truthy x = True"

text \<open>\<^verbatim>\<open>{...base, ...x}\<close>: the members of \<open>x\<close> are assigned onto a copy of \<open>base\<close>, in order.\<close>

definition spread :: "props \<Rightarrow> json \<Rightarrow> props" where
  "spread base x = foldl (\<lambda>acc (k, v). set_prop k v acc) base (own_props x)"

subsection \<open>The catalog and the persisted status store\<close>

datatype ModelKey = Tiny | Base | Small | Medium | Large

fun key_name :: "ModelKey \<Rightarrow> string" where
  "key_name Tiny = ''tiny''"
| "key_name Base = ''base''"
| "key_name Small = ''small''"
| "key_name Medium = ''medium''"
| "key_name Large = ''large''"

definition MODEL_KEYS :: "ModelKey list" where
  "MODEL_KEYS = [Tiny, Base, Small, Medium, Large]"

text \<open>The record \<^verbatim>\<open>{ state: s, progress: p }\<close>.\<close>

definition model_state :: "string \<Rightarrow> int \<Rightarrow> json" where
  "model_state s p = JObj [(''state'', JStr s), (''progress'', JNum p)]"

definition not_downloaded :: json where
  "not_downloaded = model_state ''not-downloaded'' 0"

definition defaultState :: props where
  "defaultState = foldl (\<lambda>obj k. set_prop (key_name k) not_downloaded obj) [] MODEL_KEYS"

text \<open>
  What \<^verbatim>\<open>localStorage.getItem(STORAGE_KEY)\<close> and \<^verbatim>\<open>JSON.parse\<close> make of the stored text:
  \<open>Missing\<close> when the item is \<^verbatim>\<open>null\<close> or the empty string (\<^verbatim>\<open>!raw\<close>), \<open>Unparseable\<close> when
  \<^verbatim>\<open>JSON.parse\<close> throws, \<open>Holds v\<close> when it returns \<open>v\<close>. \<^verbatim>\<open>saveStates\<close> stores
  \<^verbatim>\<open>JSON.stringify(states)\<close>, which parses back to \<open>states\<close>; writing to localStorage is
  taken to succeed.
\<close>

datatype slot = Missing | Unparseable | Holds json

definition saveStates :: "props \<Rightarrow> slot" where
  "saveStates states = Holds (JObj states)"

text \<open>\<^verbatim>\<open>loadStates\<close> of \<^verbatim>\<open>part_001\<close>: the body of the \<^verbatim>\<open>try\<close>, then the \<^verbatim>\<open>catch\<close>.\<close>

definition loadStates_try :: "slot \<Rightarrow> js_error + props" where
  "loadStates_try s =
     (case s of
        Missing \<Rightarrow> Inr defaultState
      | Unparseable \<Rightarrow> Inl SyntaxError
      | Holds parsed \<Rightarrow> Inr (spread defaultState parsed))"

definition loadStates :: "slot \<Rightarrow> props" where
  "loadStates s = (case loadStates_try s of Inl e \<Rightarrow> defaultState | Inr states \<Rightarrow> states)"

text \<open>
  \<^verbatim>\<open>states[key].f\<close> and \<^verbatim>\<open>states[key].f = v\<close>: a missing \<^verbatim>\<open>states[key]\<close> is \<^verbatim>\<open>undefined\<close>, and
  both throw on it. The assignment changes the record inside \<^verbatim>\<open>states\<close>.

  \<^verbatim>\<open>loadStates\<close> of \<^verbatim>\<open>part_000\<close>: before the merge, every member of the parsed value
  whose \<^verbatim>\<open>state\<close> is \<^verbatim>\<open>downloading\<close> is reset. \<^verbatim>\<open>Object.keys(null)\<close> and \<^verbatim>\<open>null.state\<close> throw,
  and the \<^verbatim>\<open>catch\<close> answers with the default.
\<close>

definition read_field :: "props \<Rightarrow> string \<Rightarrow> string \<Rightarrow> js_error + json option" where
  "read_field states key f =
     (case get_prop states key of None \<Rightarrow> Inl TypeError | Some r \<Rightarrow> get_member r f)"

definition assign_field :: "props \<Rightarrow> string \<Rightarrow> string \<Rightarrow> json \<Rightarrow> js_error + props" where
  "assign_field states key f v =
     (case get_prop states key of
        None \<Rightarrow> Inl TypeError
      | Some r \<Rightarrow>
          (case set_member r f v of
             Inl e \<Rightarrow> Inl e
           | Inr r' \<Rightarrow> Inr (set_prop key r' states)))"

definition object_keys :: "json \<Rightarrow> js_error + string list" where
  "object_keys x = (case x of JNull \<Rightarrow> Inl TypeError | _ \<Rightarrow> Inr (map fst (own_props x)))"

definition reset_downloading :: "string \<Rightarrow> props \<Rightarrow> js_error + props" where
  "reset_downloading k parsed =
     (case read_field parsed k ''state'' of
        Inl e \<Rightarrow> Inl e
      | Inr st \<Rightarrow>
          if st = Some (JStr ''downloading'') then
            (case assign_field parsed k ''state'' (JStr ''not-downloaded'') of
               Inl e \<Rightarrow> Inl e
             | Inr parsed1 \<Rightarrow> assign_field parsed1 k ''progress'' (JNum 0))
          else Inr parsed)"

fun forEach :: "('k \<Rightarrow> 's \<Rightarrow> js_error + 's) \<Rightarrow> 'k list \<Rightarrow> 's \<Rightarrow> js_error + 's" where
  "forEach f [] s = Inr s"
| "forEach f (k # ks) s = (case f k s of Inl e \<Rightarrow> Inl e | Inr s' \<Rightarrow> forEach f ks s')"

definition loadStates_p0_try :: "slot \<Rightarrow> js_error + props" where
  "loadStates_p0_try s =
     (case s of
        Missing \<Rightarrow> Inr defaultState
      | Unparseable \<Rightarrow> Inl SyntaxError
      | Holds parsed \<Rightarrow>
          (case object_keys parsed of
             Inl e \<Rightarrow> Inl e
           | Inr ks \<Rightarrow>
               (case forEach reset_downloading ks (own_props parsed) of
                  Inl e \<Rightarrow> Inl e
                | Inr ps \<Rightarrow> Inr (spread defaultState (JObj ps)))))"

definition loadStates_p0 :: "slot \<Rightarrow> props" where
  "loadStates_p0 s =
     (case loadStates_p0_try s of Inl e \<Rightarrow> defaultState | Inr states \<Rightarrow> states)"

text \<open>
  \<^verbatim>\<open>normalizeStatesOnStartup\<close> (\<^verbatim>\<open>part_001\<close>). The callback of \<^verbatim>\<open>MODEL_KEYS.forEach\<close> works on
  \<^verbatim>\<open>parsed\<close> and \<^verbatim>\<open>changed\<close>. Its first \<^verbatim>\<open>if\<close> replaces an interrupted or odd record by a
  fresh one; its second pins the progress of a downloaded record to 100, reading the
  condition from the old \<^verbatim>\<open>st\<close> and writing through \<^verbatim>\<open>parsed[key]\<close>.
\<close>

definition reset_stale ::
  "string \<Rightarrow> json option \<Rightarrow> json option \<Rightarrow> json \<times> bool \<Rightarrow> js_error + json \<times> bool" where
  "reset_stale key state progress pc =
     (case pc of (parsed, changed) \<Rightarrow>
        if state = Some (JStr ''downloading'') \<or> state = Some (JStr ''not-downloaded'') then
          if progress \<noteq> Some (JNum 0) \<or> state = Some (JStr ''downloading'') then
            (case set_member parsed key (model_state ''not-downloaded'' 0) of
               Inl e \<Rightarrow> Inl e
             | Inr parsed' \<Rightarrow> Inr (parsed', True))
          else Inr (parsed, changed)
        else Inr (parsed, changed))"

definition pin_downloaded ::
  "string \<Rightarrow> json option \<Rightarrow> json option \<Rightarrow> json \<times> bool \<Rightarrow> js_error + json \<times> bool" where
  "pin_downloaded key state progress pc =
     (case pc of (parsed, changed) \<Rightarrow>
        if state = Some (JStr ''downloaded'') \<and> progress \<noteq> Some (JNum 100) then
          (case get_member parsed key of
             Inl e \<Rightarrow> Inl e
           | Inr None \<Rightarrow> Inl TypeError
           | Inr (Some r) \<Rightarrow>
               (case set_member r ''progress'' (JNum 100) of
                  Inl e \<Rightarrow> Inl e
                | Inr r' \<Rightarrow>
                    (case set_member parsed key r' of
                       Inl e \<Rightarrow> Inl e
                     | Inr parsed' \<Rightarrow> Inr (parsed', True))))
        else Inr (parsed, changed))"

definition normalize_key :: "ModelKey \<Rightarrow> json \<times> bool \<Rightarrow> js_error + json \<times> bool" where
  "normalize_key key pc =
     (case get_member (fst pc) (key_name key) of
        Inl e \<Rightarrow> Inl e
      | Inr None \<Rightarrow> Inr pc
      | Inr (Some st) \<Rightarrow>
          if \<not> truthy st then Inr pc
          else
            (case get_member st ''state'' of
               Inl e \<Rightarrow> Inl e
             | Inr state \<Rightarrow>
                 (case get_member st ''progress'' of
                    Inl e \<Rightarrow> Inl e
                  | Inr progress \<Rightarrow>
                      (case reset_stale (key_name key) state progress pc of
                         Inl e \<Rightarrow> Inl e
                       | Inr pc' \<Rightarrow> pin_downloaded (key_name key) state progress pc'))))"

definition normalizeStatesOnStartup :: "slot \<Rightarrow> slot" where
  "normalizeStatesOnStartup s =
     (case s of
        Missing \<Rightarrow> s
      | Unparseable \<Rightarrow> s
      | Holds parsed \<Rightarrow>
          (case forEach normalize_key MODEL_KEYS (parsed, False) of
             Inl e \<Rightarrow> s
           | Inr (parsed', changed) \<Rightarrow> if changed then Holds parsed' else s))"

subsection \<open>The world the manager acts on\<close>

text \<open>
  The storage item, the files under the application's local data directory, the registry
  \<^verbatim>\<open>abortControllers\<close> (each controller has an identity; \<open>aborted\<close> holds those whose
  \<^verbatim>\<open>abort()\<close> was called), whether the page has the element \<^verbatim>\<open>models\<close>, and \<^verbatim>\<open>Date.now()\<close>.
\<close>

record world =
  storage :: slot
  files :: "string set"
  abortControllers :: "string \<Rightarrow> nat option"
  aborted :: "nat set"
  fresh_controller :: nat
  container :: bool
  clock :: int

definition getModelPath :: "ModelKey \<Rightarrow> string" where
  "getModelPath key = ''models/'' @ key_name key @ ''.bin''"

text \<open>
  \<^verbatim>\<open>render\<close> reads \<^verbatim>\<open>states[key].state\<close> and \<^verbatim>\<open>states[key].progress\<close> of every catalog key
  and writes to the page only. What matters here is whether it throws: it returns at once
  without the element \<^verbatim>\<open>models\<close>, and throws on a record that is \<^verbatim>\<open>null\<close>. The two versions
  differ in the \<^verbatim>\<open>loadStates\<close> they call, passed as \<open>load\<close>.
\<close>

definition render_row :: "props \<Rightarrow> ModelKey \<Rightarrow> unit \<Rightarrow> js_error + unit" where
  "render_row states key u =
     (case read_field states (key_name key) ''state'' of
        Inl e \<Rightarrow> Inl e
      | Inr _ \<Rightarrow>
          (case read_field states (key_name key) ''progress'' of
             Inl e \<Rightarrow> Inl e
           | Inr _ \<Rightarrow> Inr ()))"

definition render :: "(slot \<Rightarrow> props) \<Rightarrow> world \<Rightarrow> js_error + unit" where
  "render load w =
     (if \<not> container w then Inr ()
      else forEach (render_row (load (storage w))) MODEL_KEYS ())"

text \<open>
  \<^verbatim>\<open>remove\<close> of the file-system plugin rejects when the file is not there or the file
  system refuses; \<open>fs_ok\<close> says whether the file system lets the call through.
\<close>

definition remove :: "bool \<Rightarrow> string \<Rightarrow> world \<Rightarrow> js_error + world" where
  "remove fs_ok path w =
     (if fs_ok \<and> path \<in> files w then Inr (w\<lparr>files := files w - {path}\<rparr>)
      else Inl PlainError)"

text \<open>
  \<^verbatim>\<open>cancelDownload\<close> of \<^verbatim>\<open>part_001\<close>. A throw of \<^verbatim>\<open>render\<close> rejects the promise before the
  file is touched; a throw of \<^verbatim>\<open>remove\<close> is swallowed.
\<close>

definition abort_controller :: "ModelKey \<Rightarrow> world \<Rightarrow> world" where
  "abort_controller key w =
     (case abortControllers w (key_name key) of
        None \<Rightarrow> w
      | Some c \<Rightarrow>
          w\<lparr>aborted := insert c (aborted w),
            abortControllers := (abortControllers w)(key_name key := None)\<rparr>)"

definition cleanup_partial_file :: "bool \<Rightarrow> ModelKey \<Rightarrow> world \<Rightarrow> world" where
  "cleanup_partial_file fs_ok key w =
     (case remove fs_ok (getModelPath key) w of Inl e \<Rightarrow> w | Inr w' \<Rightarrow> w')"

definition cancelDownload :: "bool \<Rightarrow> ModelKey \<Rightarrow> world \<Rightarrow> world" where
  "cancelDownload fs_ok key w =
     (let w1 = abort_controller key w;
          states =
            set_prop (key_name key) (model_state ''not-downloaded'' 0) (loadStates (storage w1));
          w2 = w1\<lparr>storage := saveStates states\<rparr>
      in case render loadStates w2 of
           Inl e \<Rightarrow> w2
         | Inr _ \<Rightarrow> cleanup_partial_file fs_ok key w2)"

text \<open>\<^verbatim>\<open>cancelDownload\<close> of \<^verbatim>\<open>part_000\<close> assigns the two fields of the loaded record.\<close>

definition cancelDownload_p0 :: "bool \<Rightarrow> ModelKey \<Rightarrow> world \<Rightarrow> world" where
  "cancelDownload_p0 fs_ok key w =
     (let w1 = abort_controller key w in
      case assign_field (loadStates_p0 (storage w1)) (key_name key) ''state''
             (JStr ''not-downloaded'') of
        Inl e \<Rightarrow> w1
      | Inr s1 \<Rightarrow>
          (case assign_field s1 (key_name key) ''progress'' (JNum 0) of
             Inl e \<Rightarrow> w1
           | Inr s2 \<Rightarrow>
               (let w2 = w1\<lparr>storage := saveStates s2\<rparr> in
                case render loadStates_p0 w2 of
                  Inl e \<Rightarrow> w2
                | Inr _ \<Rightarrow> cleanup_partial_file fs_ok key w2)))"


text \<open>
  \<^verbatim>\<open>checkExistingFiles\<close>, the same text in both versions; \<^verbatim>\<open>exists\<close> is membership in
  \<open>files\<close>. A throw inside the loop rejects the promise before anything is saved.
\<close>

definition check_key :: "string set \<Rightarrow> ModelKey \<Rightarrow> props \<times> bool \<Rightarrow> js_error + props \<times> bool" where
  "check_key fs key sc =
     (case read_field (fst sc) (key_name key) ''state'' of
        Inl e \<Rightarrow> Inl e
      | Inr st \<Rightarrow>
          if st = Some (JStr ''downloaded'') \<and> getModelPath key \<notin> fs then
            (case assign_field (fst sc) (key_name key) ''state'' (JStr ''not-downloaded'') of
               Inl e \<Rightarrow> Inl e
             | Inr s1 \<Rightarrow>
                 (case assign_field s1 (key_name key) ''progress'' (JNum 0) of
                    Inl e \<Rightarrow> Inl e
                  | Inr s2 \<Rightarrow> Inr (s2, True)))
          else Inr sc)"

definition checkExistingFiles :: "(slot \<Rightarrow> props) \<Rightarrow> world \<Rightarrow> world" where
  "checkExistingFiles load w =
     (case forEach (check_key (files w)) MODEL_KEYS (load (storage w), False) of
        Inl e \<Rightarrow> w
      | Inr (states, changed) \<Rightarrow> if changed then w\<lparr>storage := saveStates states\<rparr> else w)"

text \<open>
  The \<^verbatim>\<open>DOMContentLoaded\<close> handler of \<^verbatim>\<open>part_001\<close>: a throw of \<^verbatim>\<open>render\<close> ends the handler
  before \<^verbatim>\<open>checkExistingFiles\<close> is called.
\<close>

definition startup :: "world \<Rightarrow> world" where
  "startup w =
     (let w1 = w\<lparr>storage := normalizeStatesOnStartup (storage w)\<rparr> in
      case render loadStates w1 of
        Inl e \<Rightarrow> w1
      | Inr _ \<Rightarrow> checkExistingFiles loadStates w1)"


subsection \<open>A download attempt\<close>

text \<open>
  \<^verbatim>\<open>startDownload\<close> is an \<^verbatim>\<open>async\<close> function: between two \<^verbatim>\<open>await\<close>s it runs without
  interruption, and while it waits other handlers (\<^verbatim>\<open>cancelDownload\<close>, a second
  \<^verbatim>\<open>startDownload\<close>) may run. An attempt is therefore a task: its local variables and the
  \<^verbatim>\<open>await\<close> it is suspended at. The environment resumes it with the outcome of the awaited
  promise. \<^verbatim>\<open>await getModelPath(key)\<close> resolves at once and is not a suspension point of
  its own.
\<close>

datatype pc =
    AwaitMkdir
  | AwaitFetch
  | AwaitCreate
  | AwaitRead
  | AwaitWrite nat
  | AwaitClose
  | AwaitDataDir
  | AwaitJoin
  | Ended

text \<open>
  \<open>Response ok body len\<close>: \<^verbatim>\<open>fetch\<close> resolved; \<open>len\<close> is \<^verbatim>\<open>parseInt\<close> of the header
  \<^verbatim>\<open>content-length\<close>, \<open>None\<close> when the header is absent or not a number (then
  \<^verbatim>\<open>totalLength > 0\<close> is false, as for 0). \<open>Chunk n\<close>: \<^verbatim>\<open>reader.read()\<close> resolved with \<open>n\<close> bytes;
  \<open>StreamEnd\<close>: it resolved with \<^verbatim>\<open>done\<close>. \<open>Resolved\<close>: any other awaited promise resolved.
  \<open>Rejected e\<close>: the awaited promise rejected with an error named \<open>e\<close>.
\<close>

datatype event =
    Resolved
  | Rejected js_error
  | Response bool bool "int option"
  | Chunk nat
  | StreamEnd

record task =
  tkey :: ModelKey
  tsignal :: nat
  tstates :: props
  tpc :: pc
  totalLength :: int
  receivedLength :: int
  lastRenderTime :: int

text \<open>
  \<^verbatim>\<open>Math.round((receivedLength / totalLength) * 100)\<close> for a positive total, on exact
  quotients: the floor of the quotient plus one half.
\<close>

definition percent :: "int \<Rightarrow> int \<Rightarrow> int" where
  "percent received len = (200 * received + len) div (2 * len)"

text \<open>The \<^verbatim>\<open>finally\<close> block, and the \<^verbatim>\<open>catch\<close> block followed by it.\<close>

definition finally_block :: "task \<Rightarrow> world \<Rightarrow> task \<times> world" where
  "finally_block t w =
     (t\<lparr>tpc := Ended\<rparr>,
      w\<lparr>abortControllers := (abortControllers w)(key_name (tkey t) := None)\<rparr>)"

definition catch_block :: "js_error \<Rightarrow> task \<Rightarrow> world \<Rightarrow> task \<times> world" where
  "catch_block e t w =
     (if e = AbortError then finally_block t w
      else
        (case assign_field (tstates t) (key_name (tkey t)) ''state'' (JStr ''not-downloaded'') of
           Inl e' \<Rightarrow> finally_block t w
         | Inr s \<Rightarrow> finally_block (t\<lparr>tstates := s\<rparr>) (w\<lparr>storage := saveStates s\<rparr>)))"

text \<open>The start of the \<^verbatim>\<open>try\<close> block, up to \<^verbatim>\<open>await mkdir\<close>.\<close>

definition begin_try :: "(slot \<Rightarrow> props) \<Rightarrow> task \<Rightarrow> world \<Rightarrow> task \<times> world" where
  "begin_try load t w =
     (case assign_field (tstates t) (key_name (tkey t)) ''state'' (JStr ''downloading'') of
        Inl e \<Rightarrow> catch_block e t w
      | Inr s1 \<Rightarrow>
          (case assign_field s1 (key_name (tkey t)) ''progress'' (JNum 0) of
             Inl e \<Rightarrow> catch_block e (t\<lparr>tstates := s1\<rparr>) w
           | Inr s2 \<Rightarrow>
               (let t2 = t\<lparr>tstates := s2\<rparr>; w2 = w\<lparr>storage := saveStates s2\<rparr> in
                case render load w2 of
                  Inl e \<Rightarrow> catch_block e t2 w2
                | Inr _ \<Rightarrow> (t2\<lparr>tpc := AwaitMkdir\<rparr>, w2))))"

text \<open>
  \<^verbatim>\<open>startDownload\<close> up to its first suspension. The guard and the new controller come
  before the \<^verbatim>\<open>try\<close>: no task is started when the guard returns or when reading the state
  throws.
\<close>

definition startDownload :: "(slot \<Rightarrow> props) \<Rightarrow> ModelKey \<Rightarrow> world \<Rightarrow> task option \<times> world" where
  "startDownload load key w =
     (let states = load (storage w) in
      case read_field states (key_name key) ''state'' of
        Inl e \<Rightarrow> (None, w)
      | Inr st \<Rightarrow>
          if st = Some (JStr ''downloading'') then (None, w)
          else
            (let c = fresh_controller w;
                 w1 = w\<lparr>abortControllers := (abortControllers w)(key_name key \<mapsto> c),
                        fresh_controller := Suc c\<rparr>;
                 t = \<lparr>tkey = key, tsignal = c, tstates = states, tpc = AwaitMkdir,
                      totalLength = 0, receivedLength = 0, lastRenderTime = 0\<rparr>
             in case begin_try load t w1 of (t', w') \<Rightarrow> (Some t', w')))"

text \<open>The end of the \<^verbatim>\<open>try\<close> block, after \<^verbatim>\<open>await join\<close>.\<close>

definition finish :: "(slot \<Rightarrow> props) \<Rightarrow> task \<Rightarrow> world \<Rightarrow> task \<times> world" where
  "finish load t w =
     (case assign_field (tstates t) (key_name (tkey t)) ''state'' (JStr ''downloaded'') of
        Inl e \<Rightarrow> catch_block e t w
      | Inr s1 \<Rightarrow>
          (case assign_field s1 (key_name (tkey t)) ''progress'' (JNum 100) of
             Inl e \<Rightarrow> catch_block e (t\<lparr>tstates := s1\<rparr>) w
           | Inr s2 \<Rightarrow>
               (let t2 = t\<lparr>tstates := s2\<rparr>; w2 = w\<lparr>storage := saveStates s2\<rparr> in
                case render load w2 of
                  Inl e \<Rightarrow> catch_block e t2 w2
                | Inr _ \<Rightarrow> finally_block t2 w2)))"

text \<open>
  \<^verbatim>\<open>part_001\<close>: after the loop. The state is read afresh; only when it is still
  \<^verbatim>\<open>downloading\<close> is the progress set to 100 and the file closed.
\<close>

definition after_loop :: "task \<Rightarrow> world \<Rightarrow> task \<times> world" where
  "after_loop t w =
     (case read_field (loadStates (storage w)) (key_name (tkey t)) ''state'' of
        Inl e \<Rightarrow> catch_block e t w
      | Inr st \<Rightarrow>
          if st \<noteq> Some (JStr ''downloading'') then finally_block t w
          else
            (case assign_field (tstates t) (key_name (tkey t)) ''progress'' (JNum 100) of
               Inl e \<Rightarrow> catch_block e t w
             | Inr s \<Rightarrow>
                 (let t1 = t\<lparr>tstates := s\<rparr>; w1 = w\<lparr>storage := saveStates s\<rparr> in
                  case render loadStates w1 of
                    Inl e \<Rightarrow> catch_block e t1 w1
                  | Inr _ \<Rightarrow> (t1\<lparr>tpc := AwaitClose\<rparr>, w1))))"

text \<open>\<^verbatim>\<open>part_001\<close>: the head of the loop, up to \<^verbatim>\<open>await reader.read()\<close>.\<close>

definition loop_head :: "task \<Rightarrow> world \<Rightarrow> task \<times> world" where
  "loop_head t w =
     (case read_field (loadStates (storage w)) (key_name (tkey t)) ''state'' of
        Inl e \<Rightarrow> catch_block e t w
      | Inr st \<Rightarrow>
          if st \<noteq> Some (JStr ''downloading'') then after_loop t w
          else (t\<lparr>tpc := AwaitRead\<rparr>, w))"

text \<open>
  \<^verbatim>\<open>part_001\<close>: the progress update after a chunk is written. The result says whether
  something was thrown, with the task and the world as they were at that point.
\<close>

definition update_progress :: "task \<Rightarrow> world \<Rightarrow> js_error option \<times> task \<times> world" where
  "update_progress t w =
     (if totalLength t > 0 then
        (let p = percent (receivedLength t) (totalLength t) in
         case read_field (tstates t) (key_name (tkey t)) ''progress'' of
           Inl e \<Rightarrow> (Some e, t, w)
         | Inr cur \<Rightarrow>
             if Some (JNum p) \<noteq> cur then
               (case assign_field (tstates t) (key_name (tkey t)) ''progress'' (JNum p) of
                  Inl e \<Rightarrow> (Some e, t, w)
                | Inr s \<Rightarrow>
                    (let t1 = t\<lparr>tstates := s\<rparr> in
                     if clock w - lastRenderTime t1 > 30 then
                       (let w1 = w\<lparr>storage := saveStates s\<rparr> in
                        case render loadStates w1 of
                          Inl e \<Rightarrow> (Some e, t1, w1)
                        | Inr _ \<Rightarrow> (None, t1\<lparr>lastRenderTime := clock w\<rparr>, w1))
                     else (None, t1, w)))
             else (None, t, w))
      else (None, t, w))"

text \<open>
  \<^verbatim>\<open>part_001\<close>: resuming the task at its suspension point. An outcome that does not fit
  the awaited promise changes nothing.
\<close>

fun step :: "pc \<Rightarrow> event \<Rightarrow> task \<Rightarrow> world \<Rightarrow> task \<times> world" where
  "step Ended ev t w = (t, w)"
| "step p (Rejected e) t w = catch_block e t w"
| "step AwaitMkdir Resolved t w = (t\<lparr>tpc := AwaitFetch\<rparr>, w)"
| "step AwaitFetch (Response ok body len) t w =
     (if \<not> ok \<or> \<not> body then catch_block PlainError t w
      else (t\<lparr>totalLength := (case len of None \<Rightarrow> 0 | Some n \<Rightarrow> n), tpc := AwaitCreate\<rparr>, w))"
| "step AwaitCreate Resolved t w =
     loop_head (t\<lparr>receivedLength := 0, lastRenderTime := 0\<rparr>)
       (w\<lparr>files := insert (getModelPath (tkey t)) (files w)\<rparr>)"
| "step AwaitRead StreamEnd t w = after_loop t w"
| "step AwaitRead (Chunk n) t w = (t\<lparr>tpc := AwaitWrite n\<rparr>, w)"
| "step (AwaitWrite n) Resolved t w =
     (case update_progress (t\<lparr>receivedLength := receivedLength t + int n\<rparr>) w of
        (Some e, t', w') \<Rightarrow> catch_block e t' w'
      | (None, t', w') \<Rightarrow> loop_head t' w')"
| "step AwaitClose Resolved t w = (t\<lparr>tpc := AwaitDataDir\<rparr>, w)"
| "step AwaitDataDir Resolved t w = (t\<lparr>tpc := AwaitJoin\<rparr>, w)"
| "step AwaitJoin Resolved t w = finish loadStates t w"
| "step p ev t w = (t, w)"

definition resume :: "event \<Rightarrow> task \<times> world \<Rightarrow> task \<times> world" where
  "resume ev tw = step (tpc (fst tw)) ev (fst tw) (snd tw)"

text \<open>
  \<^verbatim>\<open>part_000\<close>: the loop has no check of the stored state, every change of the percentage
  is saved and rendered, and the end of the stream leads straight to \<^verbatim>\<open>fileHandle.close()\<close>.
\<close>

definition update_progress_p0 :: "task \<Rightarrow> world \<Rightarrow> js_error option \<times> task \<times> world" where
  "update_progress_p0 t w =
     (if totalLength t > 0 then
        (let p = percent (receivedLength t) (totalLength t) in
         case read_field (tstates t) (key_name (tkey t)) ''progress'' of
           Inl e \<Rightarrow> (Some e, t, w)
         | Inr cur \<Rightarrow>
             if Some (JNum p) \<noteq> cur then
               (case assign_field (tstates t) (key_name (tkey t)) ''progress'' (JNum p) of
                  Inl e \<Rightarrow> (Some e, t, w)
                | Inr s \<Rightarrow>
                    (let t1 = t\<lparr>tstates := s\<rparr>; w1 = w\<lparr>storage := saveStates s\<rparr> in
                     case render loadStates_p0 w1 of
                       Inl e \<Rightarrow> (Some e, t1, w1)
                     | Inr _ \<Rightarrow> (None, t1, w1)))
             else (None, t, w))
      else (None, t, w))"

fun step_p0 :: "pc \<Rightarrow> event \<Rightarrow> task \<Rightarrow> world \<Rightarrow> task \<times> world" where
  "step_p0 Ended ev t w = (t, w)"
| "step_p0 p (Rejected e) t w = catch_block e t w"
| "step_p0 AwaitMkdir Resolved t w = (t\<lparr>tpc := AwaitFetch\<rparr>, w)"
| "step_p0 AwaitFetch (Response ok body len) t w =
     (if \<not> ok \<or> \<not> body then catch_block PlainError t w
      else (t\<lparr>totalLength := (case len of None \<Rightarrow> 0 | Some n \<Rightarrow> n), tpc := AwaitCreate\<rparr>, w))"
| "step_p0 AwaitCreate Resolved t w =
     (t\<lparr>receivedLength := 0, tpc := AwaitRead\<rparr>,
      w\<lparr>files := insert (getModelPath (tkey t)) (files w)\<rparr>)"
| "step_p0 AwaitRead StreamEnd t w = (t\<lparr>tpc := AwaitClose\<rparr>, w)"
| "step_p0 AwaitRead (Chunk n) t w = (t\<lparr>tpc := AwaitWrite n\<rparr>, w)"
| "step_p0 (AwaitWrite n) Resolved t w =
     (case update_progress_p0 (t\<lparr>receivedLength := receivedLength t + int n\<rparr>) w of
        (Some e, t', w') \<Rightarrow> catch_block e t' w'
      | (None, t', w') \<Rightarrow> (t'\<lparr>tpc := AwaitRead\<rparr>, w'))"
| "step_p0 AwaitClose Resolved t w = (t\<lparr>tpc := AwaitDataDir\<rparr>, w)"
| "step_p0 AwaitDataDir Resolved t w = (t\<lparr>tpc := AwaitJoin\<rparr>, w)"
| "step_p0 AwaitJoin Resolved t w = finish loadStates_p0 t w"
| "step_p0 p ev t w = (t, w)"

definition resume_p0 :: "event \<Rightarrow> task \<times> world \<Rightarrow> task \<times> world" where
  "resume_p0 ev tw = step_p0 (tpc (fst tw)) ev (fst tw) (snd tw)"



text \<open>The events of a stream that delivers chunks of the given sizes, each written to the file.\<close>

definition chunks :: "nat list \<Rightarrow> event list" where
  "chunks ns = concat (map (\<lambda>n. [Chunk n, Resolved]) ns)"

text \<open>
  Resuming the task that \<^verbatim>\<open>startDownload\<close> started, if it started one, and a run of such
  resumptions. Other handlers act on the world between two runs.
\<close>

fun resume_started ::
  "(event \<Rightarrow> task \<times> world \<Rightarrow> task \<times> world) \<Rightarrow> event \<Rightarrow> task option \<times> world \<Rightarrow> task option \<times> world" where
  "resume_started res ev (None, w) = (None, w)"
| "resume_started res ev (Some t, w) = (case res ev (t, w) of (t', w') \<Rightarrow> (Some t', w'))"

definition run ::
  "(event \<Rightarrow> task \<times> world \<Rightarrow> task \<times> world) \<Rightarrow> event list \<Rightarrow> task option \<times> world \<Rightarrow> task option \<times> world" where
  "run res evs tw = foldl (\<lambda>s ev. resume_started res ev s) tw evs"

subsection \<open>Example worlds and auxiliary notions\<close>

text \<open>A world at rest: the page is there, no controller is registered.\<close>

definition idle_world :: "slot \<Rightarrow> string set \<Rightarrow> world" where
  "idle_world s fs =
     \<lparr>storage = s, files = fs, abortControllers = (\<lambda>k. None), aborted = {},
      fresh_controller = 0, container = True, clock = 1000000\<rparr>"

text \<open>
  The outcomes up to the first read of a stream whose \<^verbatim>\<open>content-length\<close> is \<open>len\<close>:
  \<^verbatim>\<open>mkdir\<close>, \<^verbatim>\<open>fetch\<close> and \<^verbatim>\<open>create\<close> succeed.
\<close>

definition stream_opening :: "int \<Rightarrow> event list" where
  "stream_opening len = [Resolved, Response True True (Some len), Resolved]"

text \<open>The record a store holds under a name, if the store is an object.\<close>

definition persisted :: "slot \<Rightarrow> string \<Rightarrow> json option" where
  "persisted s n = (case s of Holds (JObj ps) \<Rightarrow> get_prop ps n | _ \<Rightarrow> None)"

text \<open>A store in which only the model \<^verbatim>\<open>tiny\<close> has a record.\<close>

definition tiny_store :: "string \<Rightarrow> int \<Rightarrow> slot" where
  "tiny_store s p = Holds (JObj [(''tiny'', model_state s p)])"

text \<open>What the two assignments \<^verbatim>\<open>state = 'not-downloaded'; progress = 0\<close> leave of a record.\<close>

definition is_downloading :: "json \<Rightarrow> bool" where
  "is_downloading r = (get_member r ''state'' = Inr (Some (JStr ''downloading'')))"

definition reset_record :: "json \<Rightarrow> json" where
  "reset_record r =
     (case r of
        JObj members \<Rightarrow>
          JObj (set_prop ''progress'' (JNum 0) (set_prop ''state'' (JStr ''not-downloaded'') members))
      | _ \<Rightarrow> r)"

text \<open>
  When the callback of \<^verbatim>\<open>normalizeStatesOnStartup\<close> writes to a record, and what it leaves of
  it; when \<^verbatim>\<open>checkExistingFiles\<close> finds the file of a downloaded record gone.
\<close>

definition needs_reset :: "json \<Rightarrow> bool" where
  "needs_reset st =
     (if get_member st ''state'' = Inr (Some (JStr ''downloading'')) then True
      else if get_member st ''state'' = Inr (Some (JStr ''not-downloaded''))
      then get_member st ''progress'' \<noteq> Inr (Some (JNum 0))
      else False)"

definition needs_pin :: "json \<Rightarrow> bool" where
  "needs_pin st =
     (get_member st ''state'' = Inr (Some (JStr ''downloaded''))
      \<and> get_member st ''progress'' \<noteq> Inr (Some (JNum 100)))"

definition stale :: "json \<Rightarrow> bool" where
  "stale st = (truthy st \<and> (needs_reset st \<or> needs_pin st))"

definition repaired :: "json \<Rightarrow> json" where
  "repaired st =
     (if \<not> stale st then st
      else if needs_reset st then model_state ''not-downloaded'' 0
      else (case st of JObj members \<Rightarrow> JObj (set_prop ''progress'' (JNum 100) members) | _ \<Rightarrow> st))"

definition file_gone :: "string set \<Rightarrow> ModelKey \<Rightarrow> json \<Rightarrow> bool" where
  "file_gone fs key r =
     (get_member r ''state'' = Inr (Some (JStr ''downloaded'')) \<and> getModelPath key \<notin> fs)"



section \<open>Properties\<close>

subsection \<open>Members of objects\<close>

lemma get_prop_append:
  "get_prop (ps @ qs) k = (case get_prop qs k of Some w \<Rightarrow> Some w | None \<Rightarrow> get_prop ps k)"
  by (induction ps) (auto split: option.splits)

lemma get_prop_map_upd:
  "get_prop (map (\<lambda>(k', v'). if k' = k then (k', v) else (k', v')) ps) k0 =
     (if k0 = k then (case get_prop ps k of None \<Rightarrow> None | Some _ \<Rightarrow> Some v) else get_prop ps k0)"
  by (induction ps) (auto split: option.splits if_splits)

lemma get_prop_set_prop:
  "get_prop (set_prop k v ps) k0 = (if k0 = k then Some v else get_prop ps k0)"
  by (auto simp: set_prop_def get_prop_append get_prop_map_upd split: option.splits)

lemma get_prop_foldl_set:
  "get_prop (foldl (\<lambda>acc (k, v). set_prop k v acc) base qs) k0 =
     (case get_prop qs k0 of Some w \<Rightarrow> Some w | None \<Rightarrow> get_prop base k0)"
  by (induction qs arbitrary: base) (auto simp: get_prop_set_prop split: option.splits)

lemma get_prop_spread:
  "get_prop (spread base x) k0 =
     (case get_prop (own_props x) k0 of Some w \<Rightarrow> Some w | None \<Rightarrow> get_prop base k0)"
  by (simp add: spread_def get_prop_foldl_set)

lemma defaultState_eq:
  "defaultState = map (\<lambda>k. (key_name k, not_downloaded)) MODEL_KEYS"
  by (simp add: defaultState_def MODEL_KEYS_def set_prop_def)

lemma get_prop_defaultState: "get_prop defaultState (key_name k) = Some not_downloaded"
  by (cases k) (simp_all add: defaultState_eq MODEL_KEYS_def)


lemma digit_char_mem: "d < 10 \<Longrightarrow> digit_char d \<in> set ''0123456789''"
  unfolding digit_char_def by (rule nth_mem) simp

lemma index_key_digits: "set (index_key n) \<subseteq> set ''0123456789''"
proof (induction n rule: index_key.induct)
  case (1 n)
  show ?case
  proof (cases "n < 10")
    case True
    then show ?thesis using digit_char_mem [of n] by (subst index_key.simps) simp
  next
    case False
    with 1 show ?thesis using digit_char_mem [of "n mod 10"] by (subst index_key.simps) simp
  qed
qed

lemma key_name_not_index: "key_name k \<noteq> index_key n"
proof
  assume "key_name k = index_key n"
  then have "set (key_name k) \<subseteq> set ''0123456789''"
    using index_key_digits [of n] by simp
  then show False
    by (cases k) simp_all
qed

lemma get_prop_zip_None: "k \<notin> set ks \<Longrightarrow> get_prop (zip ks vs) k = None"
  by (induction ks arbitrary: vs) (auto simp: zip_Cons1 split: list.splits)

lemma get_member_key_name:
  "get_member parsed (key_name k) =
     (case parsed of JNull \<Rightarrow> Inl TypeError | JObj ps \<Rightarrow> Inr (get_prop ps (key_name k)) | _ \<Rightarrow> Inr None)"
  by (cases parsed) (auto simp: key_name_not_index intro!: get_prop_zip_None)

lemma loadStates_has_key: "\<exists>r. get_prop (loadStates s) (key_name k) = Some r"
  by (cases s)
     (simp_all add: loadStates_def loadStates_try_def get_prop_spread get_prop_defaultState
        split: option.splits)

lemma loadStates_p0_has_key: "\<exists>r. get_prop (loadStates_p0 s) (key_name k) = Some r"
  by (cases s)
     (simp_all add: loadStates_p0_def loadStates_p0_try_def get_prop_spread
        get_prop_defaultState split: option.splits sum.splits)

subsection \<open>Loading the store\<close>

text \<open>
  Claim C6. \<^verbatim>\<open>loadStates\<close> catches every error of its \<^verbatim>\<open>try\<close> body, so it answers with a
  mapping on every content of the storage item. When the item is missing or does not
  parse, the answer is exactly the catalog default: the five catalog names, each with
  the record \<^verbatim>\<open>not-downloaded\<close>, progress 0. On every content the answer has a record for
  each catalog name. This holds for both versions of \<^verbatim>\<open>loadStates\<close>.
\<close>

theorem loadStates_never_fails:
  "loadStates Missing = defaultState
   \<and> loadStates Unparseable = defaultState
   \<and> loadStates_p0 Missing = defaultState
   \<and> loadStates_p0 Unparseable = defaultState
   \<and> defaultState =
       map (\<lambda>k. (key_name k, model_state ''not-downloaded'' 0)) [Tiny, Base, Small, Medium, Large]
   \<and> (\<exists>r. get_prop (loadStates s) (key_name k) = Some r)
   \<and> (\<exists>r. get_prop (loadStates_p0 s) (key_name k) = Some r)"
  using loadStates_has_key [of s k] loadStates_p0_has_key [of s k]
  by (simp add: loadStates_def loadStates_try_def loadStates_p0_def loadStates_p0_try_def
      defaultState_eq MODEL_KEYS_def not_downloaded_def)

text \<open>
  Claim C9. When the stored mapping lacks some catalog names, \<^verbatim>\<open>loadStates\<close> of
  \<^verbatim>\<open>part_001\<close> answers with a record for every catalog name: the stored record where there
  is one, the record \<^verbatim>\<open>not-downloaded\<close>, progress 0 where there is none.
\<close>

theorem loadStates_fills_missing:
  "get_prop (loadStates (Holds (JObj stored))) (key_name k) =
     (case get_prop stored (key_name k) of
        None \<Rightarrow> Some (model_state ''not-downloaded'' 0)
      | Some r \<Rightarrow> Some r)"
  by (simp add: loadStates_def loadStates_try_def get_prop_spread get_prop_defaultState
      not_downloaded_def split: option.splits)

subsection \<open>Reading and assigning record fields\<close>

lemma get_member_named:
  assumes "\<not> set k \<subseteq> set ''0123456789''"
  shows "get_member x k =
     (case x of JNull \<Rightarrow> Inl TypeError | JObj ps \<Rightarrow> Inr (get_prop ps k) | _ \<Rightarrow> Inr None)"
proof -
  have "k \<noteq> index_key n" for n
    using assms index_key_digits [of n] by auto
  then have "k \<notin> set (map index_key ns)" for ns
    by auto
  then have "get_prop (zip (map index_key ns) vs) k = None" for ns vs
    by (rule get_prop_zip_None)
  then show ?thesis
    by (cases x) simp_all
qed

lemma get_member_state [simp]:
  "get_member x ''state'' =
     (case x of JNull \<Rightarrow> Inl TypeError | JObj ps \<Rightarrow> Inr (get_prop ps ''state'') | _ \<Rightarrow> Inr None)"
  by (rule get_member_named) simp

lemma get_member_progress [simp]:
  "get_member x ''progress'' =
     (case x of JNull \<Rightarrow> Inl TypeError | JObj ps \<Rightarrow> Inr (get_prop ps ''progress'') | _ \<Rightarrow> Inr None)"
  by (rule get_member_named) simp


lemma assign_field_obj:
  "get_prop states key = Some (JObj r) \<Longrightarrow>
     assign_field states key f v = Inr (set_prop key (JObj (set_prop f v r)) states)"
  by (simp add: assign_field_def)



subsection \<open>The inline reset of part_000\<close>

lemma get_prop_Some_fst: "get_prop ps n = Some r \<Longrightarrow> n \<in> set (map fst ps)"
  by (induction ps) (auto split: option.splits if_splits)

lemma reset_downloading_step:
  assumes "reset_downloading k ps = Inr ps1"
  shows "\<exists>r. get_prop ps k = Some r \<and> r \<noteq> JNull
           \<and> (\<forall>n. get_prop ps1 n =
                 (if n = k \<and> is_downloading r then Some (reset_record r) else get_prop ps n))"
  using assms
  by (auto simp: reset_downloading_def read_field_def assign_field_def is_downloading_def
      reset_record_def get_prop_set_prop
      split: option.splits sum.splits json.splits if_splits)

lemma reset_record_not_downloading: "\<not> is_downloading (reset_record r)"
  by (cases r) (simp_all add: is_downloading_def reset_record_def get_prop_set_prop)

lemma forEach_reset_get:
  "forEach reset_downloading ks ps = Inr ps' \<Longrightarrow>
     get_prop ps' n =
       map_option (\<lambda>r. if n \<in> set ks \<and> is_downloading r then reset_record r else r)
         (get_prop ps n)"
proof (induction ks arbitrary: ps)
  case Nil
  then show ?case by (simp add: option.map_ident)
next
  case (Cons k ks)
  from Cons.prems obtain ps1 where s: "reset_downloading k ps = Inr ps1"
    and rest: "forEach reset_downloading ks ps1 = Inr ps'"
    by (auto split: sum.splits)
  from reset_downloading_step [OF s] obtain r where r: "get_prop ps k = Some r"
    and upd: "\<And>n. get_prop ps1 n =
        (if n = k \<and> is_downloading r then Some (reset_record r) else get_prop ps n)"
    by blast
  show ?case
    using Cons.IH [OF rest] upd [of n] r reset_record_not_downloading [of r]
    by (cases "get_prop ps n") (auto split: if_splits)
qed

lemma forEach_reset_visited:
  "forEach reset_downloading ks ps = Inr ps' \<Longrightarrow> n \<in> set ks \<Longrightarrow>
     \<exists>r. get_prop ps n = Some r \<and> r \<noteq> JNull"
proof (induction ks arbitrary: ps)
  case Nil
  then show ?case by simp
next
  case (Cons k ks)
  from Cons.prems obtain ps1 where s: "reset_downloading k ps = Inr ps1"
    and rest: "forEach reset_downloading ks ps1 = Inr ps'"
    by (auto split: sum.splits)
  from reset_downloading_step [OF s] obtain r where r: "get_prop ps k = Some r" "r \<noteq> JNull"
    and upd: "\<And>n. get_prop ps1 n =
        (if n = k \<and> is_downloading r then Some (reset_record r) else get_prop ps n)"
    by blast
  have nn: "reset_record r \<noteq> JNull" using r by (cases r) (simp_all add: reset_record_def)
  show ?case
  proof (cases "n = k")
    case True
    with r show ?thesis by simp
  next
    case False
    with Cons.prems(2) have "n \<in> set ks" by simp
    from Cons.IH [OF rest this] upd [of n] False show ?thesis by simp
  qed
qed

text \<open>What loadStates of part_000 answers for any name.\<close>

lemma loadStates_p0_cases:
  "loadStates_p0 s = defaultState
   \<or> (\<exists>parsed ps'. s = Holds parsed
        \<and> forEach reset_downloading (map fst (own_props parsed)) (own_props parsed) = Inr ps'
        \<and> loadStates_p0 s = spread defaultState (JObj ps'))"
  by (cases s)
     (auto simp: loadStates_p0_def loadStates_p0_try_def object_keys_def
        split: sum.splits json.splits)

lemma loadStates_p0_record:
  assumes "get_prop (loadStates_p0 s) (key_name k) = Some r"
  shows "r \<noteq> JNull \<and> \<not> is_downloading r"
proof -
  consider (dflt) "loadStates_p0 s = defaultState"
    | (merged) parsed ps' where "s = Holds parsed"
        "forEach reset_downloading (map fst (own_props parsed)) (own_props parsed) = Inr ps'"
        "loadStates_p0 s = spread defaultState (JObj ps')"
    using loadStates_p0_cases [of s] by blast
  then show ?thesis
  proof cases
    case dflt
    with assms show ?thesis
      by (auto simp: get_prop_defaultState not_downloaded_def model_state_def is_downloading_def)
  next
    case merged
    show ?thesis
    proof (cases "get_prop ps' (key_name k)")
      case None
      with assms merged(3) show ?thesis
        by (auto simp: get_prop_spread get_prop_defaultState not_downloaded_def model_state_def
            is_downloading_def)
    next
      case (Some r')
      with assms merged(3) have rr: "r' = r" by (simp add: get_prop_spread)
      from forEach_reset_get [OF merged(2), of "key_name k"] Some
      obtain r0 where r0: "get_prop (own_props parsed) (key_name k) = Some r0"
        and r': "r' = (if key_name k \<in> set (map fst (own_props parsed)) \<and> is_downloading r0
                       then reset_record r0 else r0)"
        by (cases "get_prop (own_props parsed) (key_name k)") auto
      from get_prop_Some_fst [OF r0] have mem: "key_name k \<in> set (map fst (own_props parsed))" .
      from forEach_reset_visited [OF merged(2) mem] r0 have "r0 \<noteq> JNull" by simp
      then show ?thesis
        using r' rr mem reset_record_not_downloading [of r0]
        by (cases r0) (auto simp: reset_record_def)
    qed
  qed
qed

lemma read_field_loadStates_p0:
  "read_field (loadStates_p0 s) (key_name k) ''state'' \<noteq> Inr (Some (JStr ''downloading''))"
proof -
  obtain r where r: "get_prop (loadStates_p0 s) (key_name k) = Some r"
    using loadStates_p0_has_key by blast
  from loadStates_p0_record [OF r] show ?thesis
    using r by (simp add: read_field_def is_downloading_def)
qed

lemma forEach_ok:
  "(\<And>k s. k \<in> set ks \<Longrightarrow> f k s = Inr s) \<Longrightarrow> forEach f ks s = Inr s"
  by (induction ks) simp_all

lemma render_p0_ok: "render loadStates_p0 w = Inr ()"
proof -
  have "render_row (loadStates_p0 (storage w)) k u = Inr u" for k u
  proof -
    obtain r where r: "get_prop (loadStates_p0 (storage w)) (key_name k) = Some r"
      using loadStates_p0_has_key by blast
    from loadStates_p0_record [OF r] r show ?thesis
      by (cases r) (simp_all add: render_row_def read_field_def)
  qed
  then show ?thesis
    by (simp add: render_def forEach_ok)
qed

subsection \<open>Cancelling and deleting\<close>

lemma abort_controller_simps [simp]:
  "storage (abort_controller key w) = storage w"
  "files (abort_controller key w) = files w"
  "container (abort_controller key w) = container w"
  "abortControllers (abort_controller key w) (key_name key) = None"
  by (simp_all add: abort_controller_def split: option.splits)

lemma render_cong: "storage w = storage w' \<Longrightarrow> container w = container w' \<Longrightarrow> render load w = render load w'"
  by (simp add: render_def)

lemma cleanup_partial_file_simps [simp]:
  "storage (cleanup_partial_file fs_ok key w) = storage w"
  "container (cleanup_partial_file fs_ok key w) = container w"
  "abortControllers (cleanup_partial_file fs_ok key w) = abortControllers w"
  "files (cleanup_partial_file fs_ok key w) = (if fs_ok then files w - {getModelPath key} else files w)"
  by (auto simp: cleanup_partial_file_def remove_def)

lemma cancelDownload_storage:
  "storage (cancelDownload fs_ok key w) =
     saveStates (set_prop (key_name key) (model_state ''not-downloaded'' 0) (loadStates (storage w)))"
  by (simp add: cancelDownload_def Let_def split: sum.splits)

lemma cancelDownload_container: "container (cancelDownload fs_ok key w) = container w"
  by (simp add: cancelDownload_def Let_def split: sum.splits)

lemma cancelDownload_registry: "abortControllers (cancelDownload fs_ok key w) (key_name key) = None"
  by (simp add: cancelDownload_def Let_def split: sum.splits)

lemma cancelDownload_files:
  "files (cancelDownload fs_ok key w) =
     (if render loadStates (cancelDownload fs_ok key w) = Inr () \<and> fs_ok
      then files w - {getModelPath key} else files w)"
proof -
  let ?w2 = "(abort_controller key w)\<lparr>storage := saveStates
      (set_prop (key_name key) (model_state ''not-downloaded'' 0) (loadStates (storage w)))\<rparr>"
  have "render loadStates (cancelDownload fs_ok key w) = render loadStates ?w2"
    by (rule render_cong) (simp_all add: cancelDownload_storage cancelDownload_container)
  then show ?thesis
    by (cases "render loadStates ?w2") (simp_all add: cancelDownload_def Let_def)
qed

lemma cancelDownload_p0_obj:
  assumes "get_prop (loadStates_p0 (storage w)) (key_name key) = Some (JObj r)"
  shows "\<exists>states. storage (cancelDownload_p0 fs_ok key w) = Holds (JObj states)
           \<and> get_prop states (key_name key) = Some (reset_record (JObj r))"
    and "files (cancelDownload_p0 fs_ok key w) =
           (if fs_ok then files w - {getModelPath key} else files w)"
    and "abortControllers (cancelDownload_p0 fs_ok key w) (key_name key) = None"
  using assms
  by (simp_all add: cancelDownload_p0_def Let_def assign_field_obj get_prop_set_prop
      render_p0_ok saveStates_def reset_record_def)

lemma reset_record_fields:
  "\<exists>r'. reset_record (JObj r) = JObj r'
     \<and> get_prop r' ''state'' = Some (JStr ''not-downloaded'')
     \<and> get_prop r' ''progress'' = Some (JNum 0)"
  by (simp add: reset_record_def get_prop_set_prop)

lemmas world_eval =
  idle_world_def tiny_store_def model_state_def getModelPath_def
  loadStates_def loadStates_try_def spread_def defaultState_eq MODEL_KEYS_def not_downloaded_def
  set_prop_def saveStates_def read_field_def assign_field_def
  loadStates_p0_def loadStates_p0_try_def object_keys_def reset_downloading_def
  render_def render_row_def remove_def

text \<open>
  Claim C10. \<^verbatim>\<open>cancelDownload\<close> never looks at the lifecycle state. In \<^verbatim>\<open>part_001\<close>, whatever
  the record was (\<^verbatim>\<open>downloaded\<close> and \<^verbatim>\<open>not-downloaded\<close> included), the persisted record
  becomes \<^verbatim>\<open>not-downloaded\<close>, progress 0, and the model file is removed when \<^verbatim>\<open>render\<close> has
  not thrown and the file system lets the removal through. In \<^verbatim>\<open>part_000\<close> the same holds
  for every record that is an object, and \<^verbatim>\<open>render\<close> cannot throw there. So cancelling a
  fully downloaded model deletes its file.
\<close>

theorem cancelDownload_ignores_state:
  "(\<exists>states. storage (cancelDownload fs_ok key w) = Holds (JObj states)
       \<and> get_prop states (key_name key) = Some (model_state ''not-downloaded'' 0))
   \<and> files (cancelDownload fs_ok key w) =
        (if render loadStates (cancelDownload fs_ok key w) = Inr () \<and> fs_ok
         then files w - {getModelPath key} else files w)
   \<and> (get_prop (loadStates_p0 (storage w)) (key_name key) = Some (JObj r) \<longrightarrow>
        (\<exists>states r'. storage (cancelDownload_p0 fs_ok key w) = Holds (JObj states)
           \<and> get_prop states (key_name key) = Some (JObj r')
           \<and> get_prop r' ''state'' = Some (JStr ''not-downloaded'')
           \<and> get_prop r' ''progress'' = Some (JNum 0))
        \<and> files (cancelDownload_p0 fs_ok key w) =
             (if fs_ok then files w - {getModelPath key} else files w))"
proof (intro conjI impI)
  show "\<exists>states. storage (cancelDownload fs_ok key w) = Holds (JObj states)
       \<and> get_prop states (key_name key) = Some (model_state ''not-downloaded'' 0)"
    by (simp add: cancelDownload_storage saveStates_def get_prop_set_prop)
  show "files (cancelDownload fs_ok key w) =
        (if render loadStates (cancelDownload fs_ok key w) = Inr () \<and> fs_ok
         then files w - {getModelPath key} else files w)"
    by (rule cancelDownload_files)
next
  assume obj: "get_prop (loadStates_p0 (storage w)) (key_name key) = Some (JObj r)"
  from cancelDownload_p0_obj(1) [OF obj, of fs_ok] reset_record_fields [of r]
  show "\<exists>states r'. storage (cancelDownload_p0 fs_ok key w) = Holds (JObj states)
           \<and> get_prop states (key_name key) = Some (JObj r')
           \<and> get_prop r' ''state'' = Some (JStr ''not-downloaded'')
           \<and> get_prop r' ''progress'' = Some (JNum 0)"
    by auto
  from cancelDownload_p0_obj(2) [OF obj]
  show "files (cancelDownload_p0 fs_ok key w) =
             (if fs_ok then files w - {getModelPath key} else files w)" .
qed

theorem cancelDownload_ignores_state_witness:
  "get_prop (loadStates_p0 (storage (idle_world (tiny_store ''downloaded'' 100) {''models/tiny.bin''})))
      ''tiny'' = Some (JObj [(''state'', JStr ''downloaded''), (''progress'', JNum 100)])
   \<and> files (cancelDownload True Tiny (idle_world (tiny_store ''downloaded'' 100) {''models/tiny.bin''})) = {}
   \<and> files (cancelDownload_p0 True Tiny (idle_world (tiny_store ''downloaded'' 100) {''models/tiny.bin''})) = {}"
proof -
  let ?w = "idle_world (tiny_store ''downloaded'' 100) {''models/tiny.bin''}"
  have h: "get_prop (loadStates_p0 (storage ?w)) (key_name Tiny)
      = Some (JObj [(''state'', JStr ''downloaded''), (''progress'', JNum 100)])"
    by (simp add: world_eval)
  have r: "render loadStates (cancelDownload True Tiny ?w) = Inr ()"
    by (simp add: render_def cancelDownload_storage cancelDownload_container world_eval)
  from cancelDownload_ignores_state
    [of True Tiny ?w "[(''state'', JStr ''downloaded''), (''progress'', JNum 100)]"] h r
  show ?thesis
    by (simp add: idle_world_def getModelPath_def)
qed




subsection \<open>The normalization pass of part_001\<close>

lemma key_name_inj: "key_name k = key_name k' \<Longrightarrow> k = k'"
  by (cases k; cases k') simp_all

lemma not_stale_repaired: "\<not> stale (repaired st)"
  by (cases st)
     (auto simp: repaired_def stale_def needs_reset_def needs_pin_def model_state_def
        get_prop_set_prop split: if_splits)

lemma repaired_id: "\<not> stale st \<Longrightarrow> repaired st = st"
  by (simp add: repaired_def)

lemma not_downloading_repaired: "\<not> is_downloading (repaired st)"
  by (cases st)
     (auto simp: repaired_def stale_def needs_reset_def needs_pin_def model_state_def
        is_downloading_def get_prop_set_prop split: if_splits)

lemma normalize_key_obj:
  "normalize_key k (JObj ps, c) =
     Inr (case get_prop ps (key_name k) of
            None \<Rightarrow> (JObj ps, c)
          | Some st \<Rightarrow>
              if stale st then (JObj (set_prop (key_name k) (repaired st) ps), True)
              else (JObj ps, c))"
proof (cases "get_prop ps (key_name k)")
  case None
  then show ?thesis by (simp add: normalize_key_def get_member_key_name)
next
  case (Some st)
  show ?thesis
  proof (cases "truthy st")
    case False
    with Some show ?thesis by (simp add: normalize_key_def get_member_key_name stale_def)
  next
    case True
    then show ?thesis
      using Some
      by (cases st)
         (auto simp: normalize_key_def get_member_key_name stale_def repaired_def
            needs_reset_def needs_pin_def reset_stale_def pin_downloaded_def
            get_prop_set_prop)
  qed
qed

lemma normalize_key_obj_get:
  assumes "normalize_key k (JObj ps, c) = Inr (q, c')"
  shows "\<exists>ps'. q = JObj ps'
      \<and> (\<forall>n. get_prop ps' n =
            (if n = key_name k then map_option repaired (get_prop ps n) else get_prop ps n))
      \<and> (c' \<longleftrightarrow> c \<or> (\<exists>st. get_prop ps (key_name k) = Some st \<and> stale st))
      \<and> (\<not> (\<exists>st. get_prop ps (key_name k) = Some st \<and> stale st) \<longrightarrow> ps' = ps)"
  using assms
  by (cases "get_prop ps (key_name k)")
     (auto simp: normalize_key_obj get_prop_set_prop repaired_id split: if_splits)

lemma forEach_normalize:
  "\<exists>ps' c'. forEach normalize_key ks (JObj ps, c) = Inr (JObj ps', c')
     \<and> (\<forall>n. get_prop ps' n =
           (if n \<in> key_name ` set ks then map_option repaired (get_prop ps n)
            else get_prop ps n))
     \<and> (c' \<longleftrightarrow> c \<or> (\<exists>k \<in> set ks. \<exists>st. get_prop ps (key_name k) = Some st \<and> stale st))
     \<and> ((\<forall>k \<in> set ks. \<forall>st. get_prop ps (key_name k) = Some st \<longrightarrow> \<not> stale st) \<longrightarrow> ps' = ps)"
proof (induction ks arbitrary: ps c)
  case Nil
  then show ?case by simp
next
  case (Cons k ks)
  obtain q c1 where step: "normalize_key k (JObj ps, c) = Inr (q, c1)"
    by (cases "normalize_key k (JObj ps, c)") (auto simp: normalize_key_obj)
  from normalize_key_obj_get [OF step] obtain ps1 where q: "q = JObj ps1"
    and g1: "\<And>n. get_prop ps1 n =
          (if n = key_name k then map_option repaired (get_prop ps n) else get_prop ps n)"
    and c1: "c1 \<longleftrightarrow> c \<or> (\<exists>st. get_prop ps (key_name k) = Some st \<and> stale st)"
    and same1: "\<not> (\<exists>st. get_prop ps (key_name k) = Some st \<and> stale st) \<Longrightarrow> ps1 = ps"
    by blast
  from Cons.IH [of ps1 c1] obtain ps' c' where
    run: "forEach normalize_key ks (JObj ps1, c1) = Inr (JObj ps', c')"
    and g2: "\<And>n. get_prop ps' n =
          (if n \<in> key_name ` set ks then map_option repaired (get_prop ps1 n)
           else get_prop ps1 n)"
    and c2: "c' \<longleftrightarrow> c1 \<or> (\<exists>k \<in> set ks. \<exists>st. get_prop ps1 (key_name k) = Some st \<and> stale st)"
    and same2: "(\<forall>k \<in> set ks. \<forall>st. get_prop ps1 (key_name k) = Some st \<longrightarrow> \<not> stale st)
        \<Longrightarrow> ps' = ps1"
    by blast
  have rr: "map_option repaired (map_option repaired x) = map_option repaired x" for x
    by (cases x) (simp_all add: repaired_id not_stale_repaired)
  have "forEach normalize_key (k # ks) (JObj ps, c) = Inr (JObj ps', c')"
    using step q run by simp
  moreover have "get_prop ps' n =
      (if n \<in> key_name ` set (k # ks) then map_option repaired (get_prop ps n)
       else get_prop ps n)" for n
    using g1 [of n] g2 [of n] by (auto simp: rr)
  moreover have "c' \<longleftrightarrow>
      c \<or> (\<exists>k' \<in> set (k # ks). \<exists>st. get_prop ps (key_name k') = Some st \<and> stale st)"
  proof (cases "\<exists>st. get_prop ps (key_name k) = Some st \<and> stale st")
    case True
    with c1 c2 show ?thesis by simp
  next
    case False
    have "(\<exists>st. get_prop ps1 (key_name k') = Some st \<and> stale st)
        \<longleftrightarrow> (\<exists>st. get_prop ps (key_name k') = Some st \<and> stale st)" for k'
      using g1 [of "key_name k'"] key_name_inj [of k' k] False
      by (cases "get_prop ps (key_name k')") (auto simp: not_stale_repaired)
    with c1 c2 False show ?thesis by auto
  qed
  moreover have "ps' = ps"
    if "\<forall>k' \<in> set (k # ks). \<forall>st. get_prop ps (key_name k') = Some st \<longrightarrow> \<not> stale st"
  proof -
    from that have "ps1 = ps" by (intro same1) auto
    with that same2 show ?thesis by auto
  qed
  ultimately show ?case by blast
qed

lemma normalize_key_other:
  "parsed \<noteq> JNull \<Longrightarrow> (\<And>ps. parsed \<noteq> JObj ps) \<Longrightarrow> normalize_key k (parsed, c) = Inr (parsed, c)"
  by (cases parsed) (auto simp: normalize_key_def get_member_key_name)

lemma normalize_other:
  "(\<And>ps. s \<noteq> Holds (JObj ps)) \<Longrightarrow> normalizeStatesOnStartup s = s"
proof (cases s)
  case (Holds parsed)
  assume "\<And>ps. s \<noteq> Holds (JObj ps)"
  with Holds have no: "\<And>ps. parsed \<noteq> JObj ps" by simp
  show ?thesis
  proof (cases "parsed = JNull")
    case True
    with Holds show ?thesis
      by (simp add: normalizeStatesOnStartup_def MODEL_KEYS_def normalize_key_def)
  next
    case False
    have "forEach normalize_key ks (parsed, c) = Inr (parsed, c)" for ks c
      by (induction ks) (simp_all add: normalize_key_other [OF False no])
    with Holds show ?thesis
      by (simp add: normalizeStatesOnStartup_def)
  qed
qed (simp_all add: normalizeStatesOnStartup_def)

text \<open>The store after the normalization pass.\<close>

lemma normalize_obj:
  "\<exists>ps'. normalizeStatesOnStartup (Holds (JObj ps)) = Holds (JObj ps')
     \<and> (\<forall>k. get_prop ps' (key_name k) = map_option repaired (get_prop ps (key_name k)))
     \<and> (\<forall>n. n \<notin> range key_name \<longrightarrow> get_prop ps' n = get_prop ps n)"
proof -
  from forEach_normalize [of MODEL_KEYS ps False] obtain ps' c' where
    run: "forEach normalize_key MODEL_KEYS (JObj ps, False) = Inr (JObj ps', c')"
    and g: "\<And>n. get_prop ps' n =
          (if n \<in> key_name ` set MODEL_KEYS then map_option repaired (get_prop ps n)
           else get_prop ps n)"
    and same: "(\<forall>k \<in> set MODEL_KEYS. \<forall>st. get_prop ps (key_name k) = Some st \<longrightarrow> \<not> stale st)
        \<Longrightarrow> ps' = ps"
    and c': "c' \<longleftrightarrow> False \<or> (\<exists>k \<in> set MODEL_KEYS. \<exists>st. get_prop ps (key_name k) = Some st \<and> stale st)"
    by blast
  have all: "set MODEL_KEYS = UNIV"
  proof -
    have "k \<in> set MODEL_KEYS" for k by (cases k) (simp_all add: MODEL_KEYS_def)
    then show ?thesis by auto
  qed
  have "ps' = ps" if "\<not> c'"
    using that c' same by blast
  then have "normalizeStatesOnStartup (Holds (JObj ps)) = Holds (JObj ps')"
    using run by (auto simp: normalizeStatesOnStartup_def)
  then show ?thesis
    using g all by auto
qed

lemma normalize_stable:
  assumes "\<And>k st. get_prop ps (key_name k) = Some st \<Longrightarrow> \<not> stale st"
  shows "normalizeStatesOnStartup (Holds (JObj ps)) = Holds (JObj ps)"
proof -
  from forEach_normalize [of MODEL_KEYS ps False] assms
  obtain c' where "forEach normalize_key MODEL_KEYS (JObj ps, False) = Inr (JObj ps, c')"
    by blast
  then show ?thesis
    by (simp add: normalizeStatesOnStartup_def)
qed

lemma normalize_idem: "normalizeStatesOnStartup (normalizeStatesOnStartup s) = normalizeStatesOnStartup s"
proof (cases "\<exists>ps. s = Holds (JObj ps)")
  case False
  then show ?thesis by (simp add: normalize_other)
next
  case True
  then obtain ps where s: "s = Holds (JObj ps)" by blast
  from normalize_obj [of ps] obtain ps' where
    n: "normalizeStatesOnStartup (Holds (JObj ps)) = Holds (JObj ps')"
    and g: "\<And>k. get_prop ps' (key_name k) = map_option repaired (get_prop ps (key_name k))"
    by blast
  have "normalizeStatesOnStartup (Holds (JObj ps')) = Holds (JObj ps')"
  proof (rule normalize_stable)
    fix k st assume "get_prop ps' (key_name k) = Some st"
    with g [of k] show "\<not> stale st"
      by (cases "get_prop ps (key_name k)") (auto simp: not_stale_repaired)
  qed
  with s n show ?thesis by simp
qed

lemma get_prop_own_props_key:
  "get_prop (own_props parsed) (key_name k) =
     (case parsed of JObj ps \<Rightarrow> get_prop ps (key_name k) | _ \<Rightarrow> None)"
  using get_member_key_name [of parsed k]
  by (cases parsed) simp_all

lemma loadStates_get:
  "get_prop (loadStates s) (key_name k) =
     (case s of
        Holds (JObj ps) \<Rightarrow>
          (case get_prop ps (key_name k) of None \<Rightarrow> Some not_downloaded | Some r \<Rightarrow> Some r)
      | _ \<Rightarrow> Some not_downloaded)"
  by (cases s)
     (auto simp: loadStates_def loadStates_try_def get_prop_spread get_prop_defaultState
        get_prop_own_props_key split: option.splits json.splits)

lemma not_stale_not_downloaded: "\<not> stale not_downloaded"
  by (simp add: stale_def needs_reset_def needs_pin_def not_downloaded_def model_state_def)

lemma not_stale_reset_obj: "\<not> stale (reset_record (JObj m))"
  by (simp add: stale_def needs_reset_def needs_pin_def reset_record_def get_prop_set_prop)

lemma loaded_not_stale:
  assumes "get_prop (loadStates (normalizeStatesOnStartup s)) (key_name k) = Some r"
  shows "\<not> stale r"
proof (cases "\<exists>ps. s = Holds (JObj ps)")
  case False
  then have "normalizeStatesOnStartup s = s" by (simp add: normalize_other)
  with assms False show ?thesis
    by (auto simp: loadStates_get not_stale_not_downloaded split: slot.splits json.splits)
next
  case True
  then obtain ps where s: "s = Holds (JObj ps)" by blast
  from normalize_obj [of ps] obtain ps' where
    n: "normalizeStatesOnStartup (Holds (JObj ps)) = Holds (JObj ps')"
    and g: "\<And>k. get_prop ps' (key_name k) = map_option repaired (get_prop ps (key_name k))"
    by blast
  from assms s n g [of k] show ?thesis
    by (cases "get_prop ps (key_name k)")
       (auto simp: loadStates_get not_stale_not_downloaded not_stale_repaired)
qed

text \<open>
  Claim C1. Take a persisted store in which the record of a catalog identifier has the
  state \<^verbatim>\<open>downloading\<close>. In \<^verbatim>\<open>part_001\<close>, \<^verbatim>\<open>normalizeStatesOnStartup\<close> writes back a store in which
  that record is \<^verbatim>\<open>not-downloaded\<close>, progress 0, in which no catalog record has the state
  \<^verbatim>\<open>downloading\<close>, and from which \<^verbatim>\<open>loadStates\<close> answers that record. In \<^verbatim>\<open>part_000\<close>, the mapping
  that \<^verbatim>\<open>loadStates\<close> answers has the record as \<^verbatim>\<open>not-downloaded\<close>, progress 0, and never shows
  a catalog record as \<^verbatim>\<open>downloading\<close>.
\<close>

theorem downloading_never_survives_startup:
  assumes "get_member parsed (key_name k) = Inr (Some st)"
    and "get_member st ''state'' = Inr (Some (JStr ''downloading''))"
  shows "(\<exists>parsed'. normalizeStatesOnStartup (Holds parsed) = Holds parsed'
            \<and> get_member parsed' (key_name k) = Inr (Some (model_state ''not-downloaded'' 0))
            \<and> (\<forall>k' st'. get_member parsed' (key_name k') = Inr (Some st') \<longrightarrow>
                  get_member st' ''state'' \<noteq> Inr (Some (JStr ''downloading''))))
         \<and> get_prop (loadStates (normalizeStatesOnStartup (Holds parsed))) (key_name k) =
              Some (model_state ''not-downloaded'' 0)
         \<and> (\<exists>r. get_prop (loadStates_p0 (Holds parsed)) (key_name k) = Some (JObj r)
              \<and> get_prop r ''state'' = Some (JStr ''not-downloaded'')
              \<and> get_prop r ''progress'' = Some (JNum 0))
         \<and> (\<forall>k'. read_field (loadStates_p0 (Holds parsed)) (key_name k') ''state'' \<noteq>
              Inr (Some (JStr ''downloading'')))"
proof -
  from assms(1) obtain ps where parsed: "parsed = JObj ps"
    and st: "get_prop ps (key_name k) = Some st"
    by (cases parsed) (auto simp: get_member_key_name)
  from assms(2) obtain m where m: "st = JObj m" "get_prop m ''state'' = Some (JStr ''downloading'')"
    by (cases st) auto
  have dl: "is_downloading st" using assms(2) by (simp add: is_downloading_def)
  have rep: "repaired st = model_state ''not-downloaded'' 0"
    using m by (simp add: repaired_def stale_def needs_reset_def)
  from normalize_obj [of ps] obtain ps' where
    n: "normalizeStatesOnStartup (Holds (JObj ps)) = Holds (JObj ps')"
    and g: "\<And>k. get_prop ps' (key_name k) = map_option repaired (get_prop ps (key_name k))"
    by blast
  have a: "get_member (JObj ps') (key_name k) = Inr (Some (model_state ''not-downloaded'' 0))"
    using g [of k] st rep by (simp add: get_member_key_name)
  have b: "get_member st' ''state'' \<noteq> Inr (Some (JStr ''downloading''))"
    if "get_member (JObj ps') (key_name k') = Inr (Some st')" for k' st'
  proof -
    from that g [of k'] obtain st0 where "st' = repaired st0"
      by (cases "get_prop ps (key_name k')") (auto simp: get_member_key_name)
    with not_downloading_repaired [of st0] show ?thesis
      by (simp add: is_downloading_def)
  qed
  have c: "get_prop (loadStates (normalizeStatesOnStartup (Holds parsed))) (key_name k) =
              Some (model_state ''not-downloaded'' 0)"
    using parsed n g [of k] st rep by (simp add: loadStates_get)
  have d: "\<exists>r. get_prop (loadStates_p0 (Holds parsed)) (key_name k) = Some (JObj r)
              \<and> get_prop r ''state'' = Some (JStr ''not-downloaded'')
              \<and> get_prop r ''progress'' = Some (JNum 0)"
  proof -
    consider (dflt) "loadStates_p0 (Holds parsed) = defaultState"
      | (merged) ps1 where
          "forEach reset_downloading (map fst (own_props parsed)) (own_props parsed) = Inr ps1"
          "loadStates_p0 (Holds parsed) = spread defaultState (JObj ps1)"
      using loadStates_p0_cases [of "Holds parsed"] by auto
    then show ?thesis
    proof cases
      case dflt
      then show ?thesis
        by (simp add: get_prop_defaultState not_downloaded_def model_state_def)
    next
      case merged
      from st have mem: "key_name k \<in> set (map fst ps)" by (rule get_prop_Some_fst)
      from forEach_reset_get [OF merged(1), of "key_name k"] parsed st mem dl
      have "get_prop ps1 (key_name k) = Some (reset_record st)" by simp
      with merged(2) m(1) reset_record_fields [of m] show ?thesis
        by (auto simp: get_prop_spread)
    qed
  qed
  from a b c d parsed n read_field_loadStates_p0 show ?thesis
    by blast
qed

theorem downloading_never_survives_startup_witness:
  "get_member (JObj [(''tiny'', model_state ''downloading'' 40)]) ''tiny'' =
      Inr (Some (model_state ''downloading'' 40))
   \<and> get_member (model_state ''downloading'' 40) ''state'' = Inr (Some (JStr ''downloading''))
   \<and> normalizeStatesOnStartup (tiny_store ''downloading'' 40) = tiny_store ''not-downloaded'' 0
   \<and> get_prop (loadStates_p0 (tiny_store ''downloading'' 40)) ''tiny'' =
        Some (model_state ''not-downloaded'' 0)"
proof -
  have h1: "get_member (JObj [(''tiny'', model_state ''downloading'' 40)]) (key_name Tiny) =
      Inr (Some (model_state ''downloading'' 40))"
    by simp
  have h2: "get_member (model_state ''downloading'' 40) ''state'' = Inr (Some (JStr ''downloading''))"
    by (simp add: model_state_def)
  have n: "normalizeStatesOnStartup (tiny_store ''downloading'' 40) = tiny_store ''not-downloaded'' 0"
    by (simp add: normalizeStatesOnStartup_def tiny_store_def MODEL_KEYS_def normalize_key_def
        reset_stale_def pin_downloaded_def model_state_def set_prop_def)
  have p: "get_prop (loadStates_p0 (tiny_store ''downloading'' 40)) ''tiny'' =
        Some (model_state ''not-downloaded'' 0)"
    by (simp add: world_eval)
  from downloading_never_survives_startup [OF h1 h2] h1 h2 n p
  show ?thesis by simp
qed

subsection \<open>The disk check and the startup handler\<close>

lemma file_gone_obj: "file_gone fs k r \<Longrightarrow> \<exists>m. r = JObj m"
  by (cases r) (simp_all add: file_gone_def)

lemma not_file_gone_reset: "\<not> file_gone fs k (reset_record r)"
  by (cases r) (simp_all add: file_gone_def reset_record_def get_prop_set_prop)

lemma not_file_gone_not_downloaded: "\<not> file_gone fs k not_downloaded"
  by (simp add: file_gone_def not_downloaded_def model_state_def)

lemma check_key_get:
  assumes "check_key fs k (s, c) = Inr (s', c')"
  shows "\<exists>r. get_prop s (key_name k) = Some r
      \<and> (\<forall>n. get_prop s' n =
            (if n = key_name k \<and> file_gone fs k r then Some (reset_record r) else get_prop s n))
      \<and> (c' \<longleftrightarrow> c \<or> file_gone fs k r)
      \<and> (\<not> file_gone fs k r \<longrightarrow> s' = s)"
  using assms
  by (auto simp: check_key_def read_field_def assign_field_def file_gone_def reset_record_def
      get_prop_set_prop split: option.splits sum.splits json.splits if_splits)

lemma forEach_check:
  assumes "forEach (check_key fs) ks (s, c) = Inr (s', c')"
  shows "(\<forall>k r'. get_prop s' (key_name k) = Some r' \<longrightarrow>
            (\<exists>r. get_prop s (key_name k) = Some r
                \<and> (r' = r \<or> (\<exists>m. r' = reset_record (JObj m))))
            \<and> (k \<in> set ks \<longrightarrow> \<not> file_gone fs k r'))
       \<and> (\<not> c' \<longrightarrow> s' = s \<and> \<not> c)"
  using assms
proof (induction ks arbitrary: s c)
  case Nil
  then show ?case by simp
next
  case (Cons k ks)
  from Cons.prems obtain s1 c1 where step: "check_key fs k (s, c) = Inr (s1, c1)"
    and rest: "forEach (check_key fs) ks (s1, c1) = Inr (s', c')"
    by (auto split: sum.splits)
  from check_key_get [OF step] obtain r where r: "get_prop s (key_name k) = Some r"
    and g1: "\<And>n. get_prop s1 n =
          (if n = key_name k \<and> file_gone fs k r then Some (reset_record r) else get_prop s n)"
    and c1: "c1 \<longleftrightarrow> c \<or> file_gone fs k r"
    and same1: "\<not> file_gone fs k r \<Longrightarrow> s1 = s"
    by blast
  from Cons.IH [OF rest] have
    ih1: "\<And>k' r'. get_prop s' (key_name k') = Some r' \<Longrightarrow>
          \<exists>r. get_prop s1 (key_name k') = Some r \<and> (r' = r \<or> (\<exists>m. r' = reset_record (JObj m)))"
    and ih2: "\<And>k' r'. get_prop s' (key_name k') = Some r' \<Longrightarrow> k' \<in> set ks \<Longrightarrow>
          \<not> file_gone fs k' r'"
    and ih3: "\<not> c' \<Longrightarrow> s' = s1 \<and> \<not> c1"
    by blast+
  have "\<exists>r0. get_prop s (key_name k') = Some r0
        \<and> (r' = r0 \<or> (\<exists>m. r' = reset_record (JObj m)))"
    if "get_prop s' (key_name k') = Some r'" for k' r'
    using ih1 [OF that] g1 [of "key_name k'"] r file_gone_obj [of fs k r]
    by (auto split: if_splits)
  moreover have "\<not> file_gone fs k' r'"
    if "get_prop s' (key_name k') = Some r'" "k' \<in> set (k # ks)" for k' r'
  proof (cases "k' \<in> set ks")
    case True
    with that ih2 show ?thesis by blast
  next
    case False
    with that have k': "k' = k" by simp
    from ih1 [OF that(1)] obtain r1 where
      r1: "get_prop s1 (key_name k) = Some r1" "r' = r1 \<or> (\<exists>m. r' = reset_record (JObj m))"
      using k' by blast
    have "\<not> file_gone fs k r1"
      using r1(1) g1 [of "key_name k"] r not_file_gone_reset [of fs k r]
      by (auto split: if_splits)
    with r1(2) k' not_file_gone_reset [of fs k] show ?thesis by auto
  qed
  moreover have "s' = s \<and> \<not> c" if "\<not> c'"
    using ih3 [OF that] c1 same1 by auto
  ultimately show ?case by blast
qed

lemma forEach_check_stable:
  assumes "\<And>k r. k \<in> set ks \<Longrightarrow> get_prop s (key_name k) = Some r \<Longrightarrow> \<not> file_gone fs k r"
  shows "forEach (check_key fs) ks (s, c) = Inr (s, c)
       \<or> (\<exists>e. forEach (check_key fs) ks (s, c) = Inl e)"
  using assms
proof (induction ks)
  case Nil
  then show ?case by simp
next
  case (Cons k ks)
  show ?case
  proof (cases "check_key fs k (s, c)")
    case (Inl e)
    then show ?thesis by simp
  next
    case (Inr sc)
    obtain s1 c1 where sc: "sc = (s1, c1)" by (cases sc)
    from check_key_get [OF Inr [unfolded sc]] Cons.prems [of k]
    have "s1 = s" "c1 = c" by auto
    with Inr sc Cons.IH Cons.prems show ?thesis by auto
  qed
qed

lemma checkExistingFiles_stable:
  assumes "\<And>k r. get_prop (load (storage w)) (key_name k) = Some r \<Longrightarrow> \<not> file_gone (files w) k r"
  shows "checkExistingFiles load w = w"
  using forEach_check_stable [of MODEL_KEYS "load (storage w)" "files w" False] assms
  by (auto simp: checkExistingFiles_def)

text \<open>
  Claim C7. The startup repair of \<^verbatim>\<open>part_001\<close> (\<^verbatim>\<open>normalizeStatesOnStartup\<close>, \<^verbatim>\<open>render\<close>, then
  \<^verbatim>\<open>checkExistingFiles\<close>) is idempotent on every world: with the files on disk unchanged, a
  second run leaves the store, and the rest of the world, exactly as the first run left it.
\<close>

theorem startup_idempotent: "startup (startup w) = startup w"
proof -
  let ?w1 = "w\<lparr>storage := normalizeStatesOnStartup (storage w)\<rparr>"
  have fix1: "?w1\<lparr>storage := normalizeStatesOnStartup (storage ?w1)\<rparr> = ?w1"
    by (simp add: normalize_idem)
  have again: "startup ?w1 = startup w"
    using fix1 by (simp add: startup_def Let_def)
  show ?thesis
  proof (cases "render loadStates ?w1")
    case (Inl e)
    then have "startup w = ?w1" by (simp add: startup_def Let_def)
    with again show ?thesis by simp
  next
    case (Inr u)
    then have s1: "startup w = checkExistingFiles loadStates ?w1"
      by (simp add: startup_def Let_def)
    show ?thesis
    proof (cases "forEach (check_key (files ?w1)) MODEL_KEYS (loadStates (storage ?w1), False)")
      case (Inl e)
      then have "checkExistingFiles loadStates ?w1 = ?w1"
        by (simp add: checkExistingFiles_def)
      with s1 again show ?thesis by simp
    next
      case (Inr sc)
      obtain states changed where sc: "sc = (states, changed)" by (cases sc)
      note run = Inr [unfolded sc]
      show ?thesis
      proof (cases changed)
        case False
        with run have "checkExistingFiles loadStates ?w1 = ?w1"
          by (simp add: checkExistingFiles_def)
        with s1 again show ?thesis by simp
      next
        case True
        let ?w2 = "?w1\<lparr>storage := saveStates states\<rparr>"
        from run True have c1: "checkExistingFiles loadStates ?w1 = ?w2"
          by (simp add: checkExistingFiles_def)
        from forEach_check [OF run] have
          origin: "\<And>k r'. get_prop states (key_name k) = Some r' \<Longrightarrow>
              \<exists>r. get_prop (loadStates (storage ?w1)) (key_name k) = Some r
                \<and> (r' = r \<or> (\<exists>m. r' = reset_record (JObj m)))"
          and settled: "\<And>k r'. get_prop states (key_name k) = Some r' \<Longrightarrow> k \<in> set MODEL_KEYS \<Longrightarrow>
              \<not> file_gone (files ?w1) k r'"
          by blast+
        have all: "k \<in> set MODEL_KEYS" for k by (cases k) (simp_all add: MODEL_KEYS_def)
        have "normalizeStatesOnStartup (Holds (JObj states)) = Holds (JObj states)"
        proof (rule normalize_stable)
          fix k st assume "get_prop states (key_name k) = Some st"
          from origin [OF this] obtain r where
            r: "get_prop (loadStates (normalizeStatesOnStartup (storage w))) (key_name k) = Some r"
            and st: "st = r \<or> (\<exists>m. st = reset_record (JObj m))"
            by auto
          from loaded_not_stale [OF r] st not_stale_reset_obj show "\<not> stale st"
            by auto
        qed
        then have fix2: "?w2\<lparr>storage := normalizeStatesOnStartup (storage ?w2)\<rparr> = ?w2"
          by (simp add: saveStates_def)
        have "checkExistingFiles loadStates ?w2 = ?w2"
        proof (rule checkExistingFiles_stable)
          fix k r assume "get_prop (loadStates (storage ?w2)) (key_name k) = Some r"
          then have "get_prop states (key_name k) = Some r \<or> r = not_downloaded"
            by (auto simp: loadStates_get saveStates_def split: option.splits)
          with settled [of k r] all [of k] not_file_gone_not_downloaded
          show "\<not> file_gone (files ?w2) k r" by auto
        qed
        then have "startup ?w2 = ?w2"
          using fix2 by (simp add: startup_def Let_def split: sum.splits)
        with s1 c1 show ?thesis by simp
      qed
    qed
  qed
qed

subsection \<open>Download attempts on concrete streams\<close>

lemmas task_eval =
  run_def resume_def resume_p0_def stream_opening_def chunks_def startDownload_def begin_try_def
  finish_def after_loop_def loop_head_def update_progress_def update_progress_p0_def
  catch_block_def finally_block_def percent_def
  cancelDownload_def cancelDownload_p0_def abort_controller_def cleanup_partial_file_def
  persisted_def

lemma loadStates_five:
  "loadStates (Holds (JObj [(''tiny'', a), (''base'', b), (''small'', c), (''medium'', d),
      (''large'', e)])) =
     [(''tiny'', a), (''base'', b), (''small'', c), (''medium'', d), (''large'', e)]"
  by (simp add: world_eval)

lemma render_five:
  "storage w = Holds (JObj [(''tiny'', JObj a), (''base'', JObj b), (''small'', JObj c),
      (''medium'', JObj d), (''large'', JObj e)]) \<Longrightarrow> render loadStates w = Inr ()"
  by (simp add: render_def loadStates_five render_row_def read_field_def MODEL_KEYS_def)

lemmas quick_eval = loadStates_five render_five render_p0_ok
  idle_world_def tiny_store_def model_state_def getModelPath_def
  set_prop_def saveStates_def read_field_def assign_field_def remove_def

lemmas start_eval =
  loadStates_def loadStates_try_def spread_def defaultState_eq MODEL_KEYS_def not_downloaded_def
  loadStates_p0_def loadStates_p0_try_def object_keys_def reset_downloading_def

text \<open>The guard of \<^verbatim>\<open>startDownload\<close> in part_001, and its absence of effect in part_000.\<close>

lemma startDownload_guard:
  "read_field (loadStates (storage w)) (key_name key) ''state'' = Inr (Some (JStr ''downloading''))
     \<Longrightarrow> startDownload loadStates key w = (None, w)"
  by (simp add: startDownload_def)

lemma startDownload_p0_no_guard: "fst (startDownload loadStates_p0 key w) \<noteq> None"
proof -
  obtain r where r: "get_prop (loadStates_p0 (storage w)) (key_name key) = Some r"
    using loadStates_p0_has_key by blast
  from loadStates_p0_record [OF r] obtain st where
    "read_field (loadStates_p0 (storage w)) (key_name key) ''state'' = Inr st"
    using r by (cases r) (auto simp: read_field_def)
  moreover from this have "st \<noteq> Some (JStr ''downloading'')"
    using read_field_loadStates_p0 [of "storage w" key] by auto
  ultimately show ?thesis
    by (simp add: startDownload_def Let_def split: prod.splits)
qed

text \<open>
  Claim C2 on \<^verbatim>\<open>part_000\<close>. A transfer of \<^verbatim>\<open>tiny\<close> is under way: its task waits for the next
  chunk, its controller 0 is registered and the persisted record is \<^verbatim>\<open>downloading\<close>,
  progress 40. A second \<^verbatim>\<open>startDownload\<close> is not a no-op: it registers a new controller 1 in
  place of the first, persists the record with progress 0 and starts a second task. In
  \<^verbatim>\<open>part_001\<close> the same call returns at the guard (\<open>startDownload_guard\<close>).
\<close>

theorem second_start_p0_starts_second_transfer:
  "let s1 = run resume_p0 (stream_opening 100 @ chunks [40])
              (startDownload loadStates_p0 Tiny (idle_world Missing {}));
       s2 = startDownload loadStates_p0 Tiny (snd s1)
   in map_option tpc (fst s1) = Some AwaitRead
    \<and> map_option tsignal (fst s1) = Some 0
    \<and> persisted (storage (snd s1)) ''tiny'' = Some (model_state ''downloading'' 40)
    \<and> abortControllers (snd s1) ''tiny'' = Some 0
    \<and> map_option tpc (fst s2) = Some AwaitMkdir
    \<and> map_option tsignal (fst s2) = Some 1
    \<and> persisted (storage (snd s2)) ''tiny'' = Some (model_state ''downloading'' 0)
    \<and> abortControllers (snd s2) ''tiny'' = Some 1"
proof -
  let ?nd = "model_state ''not-downloaded'' 0"
  let ?states = "\<lambda>r. [(''tiny'', r), (''base'', ?nd), (''small'', ?nd), (''medium'', ?nd),
      (''large'', ?nd)]"
  let ?w1 = "\<lparr>storage = Holds (JObj (?states (model_state ''downloading'' 40))),
      files = {''models/tiny.bin''}, abortControllers = (\<lambda>k. None)(''tiny'' \<mapsto> 0), aborted = {},
      fresh_controller = Suc 0, container = True, clock = 1000000\<rparr>"
  have s1: "run resume_p0 (stream_opening 100 @ chunks [40])
      (startDownload loadStates_p0 Tiny (idle_world Missing {}))
      = (Some \<lparr>tkey = Tiny, tsignal = 0, tstates = ?states (model_state ''downloading'' 40),
            tpc = AwaitRead, totalLength = 100, receivedLength = 40, lastRenderTime = 0\<rparr>, ?w1)"
    by (simp add: task_eval quick_eval start_eval)
  have s2: "startDownload loadStates_p0 Tiny ?w1
      = (Some \<lparr>tkey = Tiny, tsignal = 1, tstates = ?states (model_state ''downloading'' 0),
            tpc = AwaitMkdir, totalLength = 0, receivedLength = 0, lastRenderTime = 0\<rparr>,
         ?w1\<lparr>storage := Holds (JObj (?states (model_state ''downloading'' 0))),
              abortControllers := (\<lambda>k. None)(''tiny'' \<mapsto> 1), fresh_controller := 2\<rparr>)"
    by (simp add: task_eval quick_eval start_eval)
  show ?thesis
    unfolding Let_def s1 snd_conv fst_conv s2
    by (simp add: persisted_def model_state_def)
qed

text \<open>
  Claim C3 on a concrete attempt, in both versions. The stream of \<^verbatim>\<open>tiny\<close> has delivered its
  100 bytes and the task waits for \<^verbatim>\<open>fileHandle.close()\<close>, the record still \<^verbatim>\<open>downloading\<close>.
  \<^verbatim>\<open>cancelDownload\<close> then persists \<^verbatim>\<open>not-downloaded\<close>, progress 0 and removes the file; but the
  task, resumed, persists \<^verbatim>\<open>downloaded\<close>, progress 100 without looking at the store again,
  and the file stays removed.
\<close>

theorem cancel_while_closing_ends_downloaded:
  "(let s1 = run resume (stream_opening 100 @ chunks [100] @ [StreamEnd])
              (startDownload loadStates Tiny (idle_world Missing {}));
        s2 = apsnd (cancelDownload True Tiny) s1;
        s3 = run resume [Resolved, Resolved, Resolved] s2
    in map_option tpc (fst s1) = Some AwaitClose
     \<and> persisted (storage (snd s1)) ''tiny'' = Some (model_state ''downloading'' 100)
     \<and> persisted (storage (snd s2)) ''tiny'' = Some (model_state ''not-downloaded'' 0)
     \<and> files (snd s2) = {}
     \<and> map_option tpc (fst s3) = Some Ended
     \<and> persisted (storage (snd s3)) ''tiny'' = Some (model_state ''downloaded'' 100)
     \<and> files (snd s3) = {})
   \<and> (let s1 = run resume_p0 (stream_opening 100 @ chunks [100] @ [StreamEnd])
              (startDownload loadStates_p0 Tiny (idle_world Missing {}));
        s2 = apsnd (cancelDownload_p0 True Tiny) s1;
        s3 = run resume_p0 [Resolved, Resolved, Resolved] s2
    in map_option tpc (fst s1) = Some AwaitClose
     \<and> persisted (storage (snd s1)) ''tiny'' = Some (model_state ''downloading'' 100)
     \<and> persisted (storage (snd s2)) ''tiny'' = Some (model_state ''not-downloaded'' 0)
     \<and> files (snd s2) = {}
     \<and> map_option tpc (fst s3) = Some Ended
     \<and> persisted (storage (snd s3)) ''tiny'' = Some (model_state ''downloaded'' 100)
     \<and> files (snd s3) = {})"
proof -
  let ?nd = "model_state ''not-downloaded'' 0"
  let ?states = "\<lambda>r. [(''tiny'', r), (''base'', ?nd), (''small'', ?nd), (''medium'', ?nd),
      (''large'', ?nd)]"
  let ?task = "\<lambda>r pc l. \<lparr>tkey = Tiny, tsignal = 0, tstates = ?states r, tpc = pc,
      totalLength = 100, receivedLength = 100, lastRenderTime = l\<rparr>"
  let ?world = "\<lambda>r fs reg ab. \<lparr>storage = Holds (JObj (?states r)), files = fs,
      abortControllers = reg, aborted = ab, fresh_controller = Suc 0, container = True,
      clock = 1000000\<rparr>"
  let ?w1 = "?world (model_state ''downloading'' 100) {''models/tiny.bin''}
      ((\<lambda>k. None)(''tiny'' \<mapsto> 0)) {}"
  let ?w2 = "?world ?nd {} (\<lambda>k. None) {0}"
  let ?w3 = "?world (model_state ''downloaded'' 100) {} (\<lambda>k. None) {0}"
  have a1: "run resume (stream_opening 100 @ chunks [100] @ [StreamEnd])
      (startDownload loadStates Tiny (idle_world Missing {}))
      = (Some (?task (model_state ''downloading'' 100) AwaitClose 1000000), ?w1)"
    by (simp add: task_eval quick_eval start_eval)
  have a2: "cancelDownload True Tiny ?w1 = ?w2"
    by (simp add: task_eval quick_eval)
  have a3: "run resume [Resolved, Resolved, Resolved]
      (Some (?task (model_state ''downloading'' 100) AwaitClose 1000000), ?w2)
      = (Some (?task (model_state ''downloaded'' 100) Ended 1000000), ?w3)"
    by (simp add: task_eval quick_eval)
  have b1: "run resume_p0 (stream_opening 100 @ chunks [100] @ [StreamEnd])
      (startDownload loadStates_p0 Tiny (idle_world Missing {}))
      = (Some (?task (model_state ''downloading'' 100) AwaitClose 0), ?w1)"
    by (simp add: task_eval quick_eval start_eval)
  have b2: "cancelDownload_p0 True Tiny ?w1 = ?w2"
    by (simp add: task_eval quick_eval start_eval)
  have b3: "run resume_p0 [Resolved, Resolved, Resolved]
      (Some (?task (model_state ''downloading'' 100) AwaitClose 0), ?w2)
      = (Some (?task (model_state ''downloaded'' 100) Ended 0), ?w3)"
    by (simp add: task_eval quick_eval)
  show ?thesis
    unfolding Let_def a1 b1 apsnd_conv a2 b2 a3 b3
    by (simp add: persisted_def model_state_def)
qed

text \<open>
  Claim C4 on a concrete attempt, in both versions. The stream of \<^verbatim>\<open>tiny\<close> announces 100
  bytes, delivers 50 and then fails with an error that is not an \<^verbatim>\<open>AbortError\<close>: the \<^verbatim>\<open>catch\<close>
  branch persists the state \<^verbatim>\<open>not-downloaded\<close> but leaves the progress at 50. A failure
  before the first chunk (here a response that is not \<^verbatim>\<open>ok\<close>) leaves progress 0.
\<close>

theorem failed_download_keeps_progress:
  "persisted (storage (snd (run resume (stream_opening 100 @ chunks [50] @ [Rejected PlainError])
        (startDownload loadStates Tiny (idle_world Missing {}))))) ''tiny''
     = Some (model_state ''not-downloaded'' 50)
   \<and> persisted (storage (snd (run resume_p0
        (stream_opening 100 @ chunks [50] @ [Rejected PlainError])
        (startDownload loadStates_p0 Tiny (idle_world Missing {}))))) ''tiny''
     = Some (model_state ''not-downloaded'' 50)
   \<and> persisted (storage (snd (run resume [Resolved, Response False True None]
        (startDownload loadStates Tiny (idle_world Missing {}))))) ''tiny''
     = Some (model_state ''not-downloaded'' 0)"
  by (simp add: task_eval quick_eval start_eval)


subsection \<open>Progress within one attempt\<close>





lemma finally_block_fst: "fst (finally_block t w) = t\<lparr>tpc := Ended\<rparr>"
  by (simp add: finally_block_def)
















end
